theory Spec2Isabelle
  imports Complex_Main "HOL-Library.Multiset" "HOL-Library.Char_ord"
    "HOL-Library.List_Lexorder" "HOL-Library.Product_Lexorder"
begin

section \<open>Python values shared by the three drivers\<close>

text \<open>
  An exception is its class name and its message; the drivers only ever format
  \<^verbatim>\<open>type(e).__name__\<close> and \<^verbatim>\<open>str(e)\<close>. A function that may raise
  returns \<open>exn + 'a\<close>, with \<open>Inl\<close> for the exception.
\<close>

datatype exn = Exn string string

fun exn_text :: "exn \<Rightarrow> string" where
  "exn_text (Exn kind msg) = kind @ '': '' @ msg"

definition bnd :: "exn + 'a \<Rightarrow> ('a \<Rightarrow> exn + 'b) \<Rightarrow> exn + 'b" where
  "bnd m f = (case m of Inl e \<Rightarrow> Inl e | Inr v \<Rightarrow> f v)"

text \<open>
  The JSON values the drivers read and write: \<^verbatim>\<open>None\<close>, numbers (Python keeps
  \<^verbatim>\<open>int\<close> and \<^verbatim>\<open>float\<close> apart) and strings. Time stamps are floats in the
  source; they are modelled as reals, so rounding is not part of the model. A \<^verbatim>\<open>dict\<close>
  is an association list in insertion order.
\<close>

datatype jval = JNull | JInt int | JFloat real | JStr string

type_synonym json_obj = "(string \<times> jval) list"

fun truthy :: "jval \<Rightarrow> bool" where
  "truthy JNull = False"
| "truthy (JInt n) = (n \<noteq> 0)"
| "truthy (JFloat x) = (x \<noteq> 0)"
| "truthy (JStr s) = (s \<noteq> [])"

text \<open>\<^verbatim>\<open>d[k]\<close> raises KeyError on a missing key; \<^verbatim>\<open>d.get(k)\<close> gives \<^verbatim>\<open>None\<close>.\<close>

definition getitem :: "json_obj \<Rightarrow> string \<Rightarrow> exn + jval" where
  "getitem d k = (case map_of d k of None \<Rightarrow> Inl (Exn ''KeyError'' k) | Some v \<Rightarrow> Inr v)"

definition dict_get :: "json_obj \<Rightarrow> string \<Rightarrow> jval" where
  "dict_get d k = (case map_of d k of None \<Rightarrow> JNull | Some v \<Rightarrow> v)"

text \<open>\<^verbatim>\<open>a - b\<close> on two JSON values: numbers subtract, anything else is a TypeError.\<close>

fun jsub :: "jval \<Rightarrow> jval \<Rightarrow> exn + jval" where
  "jsub (JFloat a) (JFloat b) = Inr (JFloat (a - b))"
| "jsub (JInt a) (JInt b) = Inr (JInt (a - b))"
| "jsub (JFloat a) (JInt b) = Inr (JFloat (a - of_int b))"
| "jsub (JInt a) (JFloat b) = Inr (JFloat (of_int a - b))"
| "jsub _ _ = Inl (Exn ''TypeError'' ''unsupported operand type(s) for -'')"

section \<open>deepresearch.py: the task record and one attempt\<close>

text \<open>
  The dataclass \<^verbatim>\<open>ResearchTask\<close>. The field \<^verbatim>\<open>raw_info\<close> is written once at
  creation and never read, so it is left out.
\<close>

record ResearchTask =
  task_id :: string
  prompt :: string
  status :: string
  result :: "string option"
  error :: "string option"
  start_time :: "real option"
  end_time :: "real option"
  retry_count :: int

text \<open>
  \<^verbatim>\<open>OAISyncDeepResearch\<close>: the configuration stored by \<^verbatim>\<open>__init__\<close> and the three
  progress counters. The client object and the model name are left out; the remote call
  they make is the \<open>response\<close> of an attempt below.
\<close>

record researcher =
  max_concurrent :: nat
  max_retries :: int
  retry_delay :: real
  completed_count :: nat
  failed_count :: nat
  total_count :: nat

definition init_researcher :: "nat \<Rightarrow> int \<Rightarrow> real \<Rightarrow> researcher" where
  "init_researcher mc mr rd =
     \<lparr>max_concurrent = mc, max_retries = mr, retry_delay = rd,
      completed_count = 0, failed_count = 0, total_count = 0\<rparr>"

text \<open>
  What the outside world does during one attempt: the two readings of
  \<^verbatim>\<open>time.time()\<close> and the outcome of \<^verbatim>\<open>client.responses.create\<close>, which either
  raises or gives \<^verbatim>\<open>response.output_text\<close>.
\<close>

record attempt =
  t_start :: real
  response :: "exn + string"
  t_end :: real

text \<open>
  The body of \<^verbatim>\<open>_execute_research\<close>, one attempt. The task object is mutated in
  place, so the updated task comes back in both cases; on an exception the handler sets
  \<^verbatim>\<open>status\<close>, \<^verbatim>\<open>error\<close> and \<^verbatim>\<open>end_time\<close> and re-raises.
\<close>

definition execute_research_body ::
  "attempt \<Rightarrow> researcher \<times> ResearchTask \<Rightarrow> (researcher \<times> ResearchTask) \<times> (exn + ResearchTask)" where
  "execute_research_body a st =
     (case st of (self, task) \<Rightarrow>
        let task1 = task\<lparr>start_time := Some (t_start a), status := ''processing''\<rparr> in
        (case response a of
           Inr output_text \<Rightarrow>
             let task2 = task1\<lparr>result := Some output_text, status := ''completed'',
                               end_time := Some (t_end a)\<rparr>;
                 self2 = self\<lparr>completed_count := completed_count self + 1\<rparr>
             in ((self2, task2), Inr task2)
         | Inl e \<Rightarrow>
             let task2 = task1\<lparr>status := ''failed'', error := Some (exn_text e),
                               end_time := Some (t_end a)\<rparr>;
                 self2 = self\<lparr>failed_count := failed_count self + 1\<rparr>
             in ((self2, task2), Inl e)))"

section \<open>The retry decorator\<close>

text \<open>
  \<^verbatim>\<open>@retry(stop=stop_after_attempt(10), wait=wait_exponential(multiplier=1, min=1, max=15),
  retry_error_callback=_retry_error_callback)\<close>. The library (tenacity) is not part of
  the repository; its loop is modelled from its documented behaviour: call the function;
  on a return, return that value; on an exception, ask \<^verbatim>\<open>stop\<close> with the number of the
  attempt just made (counted from 1); if it says stop, return whatever
  \<^verbatim>\<open>retry_error_callback(retry_state)\<close> gives, otherwise sleep \<^verbatim>\<open>wait\<close> seconds and
  call again. \<^verbatim>\<open>stop_after_attempt(n)\<close> stops when the attempt number has reached
  \<open>n\<close>. \<^verbatim>\<open>wait_exponential\<close> waits the multiplier times 2 to the power of the
  attempt number less one, kept between \<^verbatim>\<open>min\<close> and \<^verbatim>\<open>max\<close> (older releases
  of the library take the attempt number itself as the exponent; the bounds are the
  same).
\<close>

definition stop_after_attempt :: "nat \<Rightarrow> nat \<Rightarrow> bool" where
  "stop_after_attempt max_attempt_number attempt_number \<longleftrightarrow> attempt_number \<ge> max_attempt_number"

definition wait_exponential :: "real \<Rightarrow> real \<Rightarrow> real \<Rightarrow> nat \<Rightarrow> real" where
  "wait_exponential multiplier mn mx attempt_number =
     max (max 0 mn) (min (multiplier * 2 ^ (attempt_number - 1)) mx)"

text \<open>
  Python binds positional arguments to parameters one by one; a parameter left without
  an argument is a TypeError.
\<close>

definition bind_positional :: "string list \<Rightarrow> 'v list \<Rightarrow> exn + (string \<times> 'v) list" where
  "bind_positional params args =
     (if length args < length params
        then Inl (Exn ''TypeError'' (''missing required positional argument: '' @ params ! length args))
      else if length args > length params
        then Inl (Exn ''TypeError'' ''too many positional arguments'')
      else Inr (zip params args))"

text \<open>
  \<^verbatim>\<open>def _retry_error_callback(self, retry_state)\<close> logs a warning and returns
  \<^verbatim>\<open>None\<close>. The decorator line is evaluated inside the class body, where the name is
  still the plain function of two parameters, and the library calls it with the retry
  state alone. So the call made when the attempts are used up binds one argument to two
  parameters.
\<close>

definition retry_error_callback_params :: "string list" where
  "retry_error_callback_params = [''self'', ''retry_state'']"

definition retry_error_callback :: "exn \<Rightarrow> exn + ResearchTask option" where
  "retry_error_callback last_exception =
     bnd (bind_positional retry_error_callback_params [last_exception]) (\<lambda>_. Inr None)"

text \<open>
  The loop. The state \<open>s\<close> is what the attempts mutate; the result is the final state,
  the sleeps made (in order), the number of attempts made, and what the decorated call
  returns or raises.
\<close>

function retrying ::
  "nat \<Rightarrow> (nat \<Rightarrow> real) \<Rightarrow> (exn \<Rightarrow> exn + 'r option) \<Rightarrow> (nat \<Rightarrow> 's \<Rightarrow> 's \<times> (exn + 'r))
    \<Rightarrow> nat \<Rightarrow> 's \<Rightarrow> 's \<times> real list \<times> nat \<times> (exn + 'r option)" where
  "retrying max_attempt_number wait callback fn attempt_number s =
     (case fn attempt_number s of
        (s', Inr r) \<Rightarrow> (s', [], attempt_number, Inr (Some r))
      | (s', Inl e) \<Rightarrow>
          if stop_after_attempt max_attempt_number attempt_number
            then (s', [], attempt_number, callback e)
          else (case retrying max_attempt_number wait callback fn (Suc attempt_number) s' of
                  (s'', sl, n, out) \<Rightarrow> (s'', wait attempt_number # sl, n, out)))"
  by pat_completeness auto
termination
  by (relation "measure (\<lambda>(m, w, c, f, k, s). m - k)")
     (auto simp: stop_after_attempt_def)

declare retrying.simps [simp del]

text \<open>
  The decorated \<^verbatim>\<open>_execute_research\<close>. The environment \<open>env\<close> gives, for each attempt
  number, what the outside world does during that attempt. The stop count is the
  literal 10 of the decorator line; \<^verbatim>\<open>self.max_retries\<close> is stored by
  \<^verbatim>\<open>__init__\<close> and read nowhere.
\<close>

definition execute_research ::
  "(nat \<Rightarrow> attempt) \<Rightarrow> researcher \<times> ResearchTask
    \<Rightarrow> (researcher \<times> ResearchTask) \<times> real list \<times> nat \<times> (exn + ResearchTask option)" where
  "execute_research env st =
     retrying 10 (wait_exponential 1 1 15) retry_error_callback
       (\<lambda>k. execute_research_body (env k)) 1 st"

definition task_after :: "(nat \<Rightarrow> attempt) \<Rightarrow> researcher \<Rightarrow> ResearchTask \<Rightarrow> ResearchTask" where
  "task_after env self task = snd (fst (execute_research env (self, task)))"

definition attempts_made :: "(nat \<Rightarrow> attempt) \<Rightarrow> researcher \<Rightarrow> ResearchTask \<Rightarrow> nat" where
  "attempts_made env self task = fst (snd (snd (execute_research env (self, task))))"

definition sleeps_made :: "(nat \<Rightarrow> attempt) \<Rightarrow> researcher \<Rightarrow> ResearchTask \<Rightarrow> real list" where
  "sleeps_made env self task = fst (snd (execute_research env (self, task)))"

definition new_task :: "string \<Rightarrow> string \<Rightarrow> ResearchTask" where
  "new_task i p =
     \<lparr>task_id = i, prompt = p, status = ''pending'', result = None, error = None,
      start_time = None, end_time = None, retry_count = 0\<rparr>"

section \<open>deepresearch.py: the coordinator\<close>

text \<open>
  \<^verbatim>\<open>as_completed\<close> yields every submitted future once, in the order in which the
  futures finish. That order is the scheduler's choice: \<open>sched step\<close> picks which of
  the futures still running finishes next, so every order can occur and none is
  assumed.
\<close>

function as_completed :: "(nat \<Rightarrow> nat) \<Rightarrow> nat \<Rightarrow> 'a list \<Rightarrow> 'a list" where
  "as_completed sched step fs =
     (if fs = [] then []
      else let j = sched step mod length fs
           in fs ! j # as_completed sched (Suc step) (take j fs @ drop (Suc j) fs))"
  by pat_completeness auto
termination
proof (relation "measure (\<lambda>(sched, step, fs). length fs)")
  show "wf (measure (\<lambda>(sched :: nat \<Rightarrow> nat, step :: nat, fs :: 'a list). length fs))"
    by simp
next
  fix sched :: "nat \<Rightarrow> nat" and step :: nat and fs :: "'a list" and j :: nat
  assume "fs \<noteq> []" and j: "j = sched step mod length fs"
  then have "j < length fs" by simp
  then show "((sched, Suc step, take j fs @ drop (Suc j) fs), (sched, step, fs))
               \<in> measure (\<lambda>(sched, step, fs). length fs)"
    by simp
qed

declare as_completed.simps [simp del]

text \<open>
  The loop of \<^verbatim>\<open>process_tasks\<close> over the finished futures. A future carries the index
  of its task in the submitted list; \<open>envs i\<close> is what the outside world does to task
  \<open>i\<close>. \<^verbatim>\<open>future.result()\<close> gives what the decorated call returned, which is
  appended as it is; if the call raised, the handler appends the task object, which the
  attempts have mutated. The worker threads share nothing but the counters of the
  client, so the run of a task is written at the place where its future is collected.
\<close>

fun collect_results ::
  "(nat \<Rightarrow> nat \<Rightarrow> attempt) \<Rightarrow> researcher \<Rightarrow> (nat \<times> ResearchTask) list
    \<Rightarrow> researcher \<times> ResearchTask option list" where
  "collect_results envs self [] = (self, [])"
| "collect_results envs self ((i, task) # rest) =
     (case execute_research (envs i) (self, task) of
        ((self1, task1), sl, n, out) \<Rightarrow>
          (case collect_results envs self1 rest of
             (self2, results) \<Rightarrow>
               ((self2, (case out of Inr r \<Rightarrow> r | Inl e \<Rightarrow> Some task1) # results))))"

definition process_tasks ::
  "researcher \<Rightarrow> ResearchTask list \<Rightarrow> (nat \<Rightarrow> nat \<Rightarrow> attempt) \<Rightarrow> (nat \<Rightarrow> nat)
    \<Rightarrow> researcher \<times> ResearchTask option list" where
  "process_tasks self tasks envs sched =
     collect_results envs (self\<lparr>total_count := length tasks\<rparr>)
       (as_completed sched 0 (zip [0..<length tasks] tasks))"

section \<open>deepresearch.py: merging and writing the result file\<close>

definition opt_str :: "string option \<Rightarrow> jval" where
  "opt_str v = (case v of None \<Rightarrow> JNull | Some s \<Rightarrow> JStr s)"

definition opt_float :: "real option \<Rightarrow> jval" where
  "opt_float v = (case v of None \<Rightarrow> JNull | Some x \<Rightarrow> JFloat x)"

text \<open>
  The dict literal that \<^verbatim>\<open>main\<close> builds from a task (twice, with the same text).
  \<^verbatim>\<open>task.end_time - task.start_time if task.start_time and task.end_time else None\<close>
  tests the truth of the two stamps: \<^verbatim>\<open>None\<close> and 0 are false.
\<close>

definition task_dict :: "ResearchTask \<Rightarrow> json_obj" where
  "task_dict task =
     [(''id'', JStr (task_id task)),
      (''prompt'', JStr (prompt task)),
      (''status'', JStr (status task)),
      (''result'', opt_str (result task)),
      (''error'', opt_str (error task)),
      (''start_time'', opt_float (start_time task)),
      (''end_time'', opt_float (end_time task)),
      (''duration'',
         (case (start_time task, end_time task) of
            (Some s, Some e) \<Rightarrow> if s \<noteq> 0 \<and> e \<noteq> 0 then JFloat (e - s) else JNull
          | _ \<Rightarrow> JNull)),
      (''retry_count'', JInt (retry_count task))]"

text \<open>
  The result file when \<^verbatim>\<open>main\<close> merges: absent, present but not JSON, or a list of
  objects.
\<close>

datatype file_state = NoFile | NotJson | Records "json_obj list"

text \<open>
  \<^verbatim>\<open>[r for r in existing_results if r['id'] not in [task.id for task in pending_tasks]]\<close>
\<close>

fun remove_pending :: "string list \<Rightarrow> json_obj list \<Rightarrow> exn + json_obj list" where
  "remove_pending ids [] = Inr []"
| "remove_pending ids (r # rs) =
     bnd (getitem r ''id'') (\<lambda>i.
     bnd (remove_pending ids rs) (\<lambda>kept.
       Inr (if i \<in> set (map JStr ids) then kept else r # kept)))"

text \<open>
  The branch \<^verbatim>\<open>if pending_tasks:\<close> of \<^verbatim>\<open>main\<close> after \<^verbatim>\<open>process_tasks\<close> has
  returned \<open>new_results\<close>. \<^verbatim>\<open>for task in new_results if task\<close> keeps the entries
  that are task objects and drops \<^verbatim>\<open>None\<close>.
\<close>

definition merge_results ::
  "file_state \<Rightarrow> ResearchTask list \<Rightarrow> ResearchTask option list \<Rightarrow> exn + json_obj list" where
  "merge_results output_file pending_tasks new_results =
     (case output_file of
        Records existing_results \<Rightarrow>
          bnd (remove_pending (map task_id pending_tasks) existing_results) (\<lambda>kept.
            Inr (kept @ map task_dict (List.map_filter (\<lambda>t. t) new_results)))
      | NotJson \<Rightarrow> Inl (Exn ''JSONDecodeError'' ''Expecting value'')
      | NoFile \<Rightarrow> Inr (map task_dict (List.map_filter (\<lambda>t. t) new_results)))"

text \<open>
  One entry of \<^verbatim>\<open>save_final_results\<close>: the dict literal reads seven keys of the
  merged dict and computes \<^verbatim>\<open>duration\<close>.
\<close>

definition final_entry :: "json_obj \<Rightarrow> exn + json_obj" where
  "final_entry task =
     bnd (getitem task ''id'') (\<lambda>v_id.
     bnd (getitem task ''prompt'') (\<lambda>v_prompt.
     bnd (getitem task ''status'') (\<lambda>v_status.
     bnd (getitem task ''result'') (\<lambda>v_result.
     bnd (getitem task ''error'') (\<lambda>v_error.
     bnd (getitem task ''start_time'') (\<lambda>v_start.
     bnd (getitem task ''end_time'') (\<lambda>v_end.
     bnd (if truthy v_start \<and> truthy v_end then jsub v_end v_start else Inr JNull) (\<lambda>v_duration.
       Inr [(''id'', v_id),
            (''prompt'', v_prompt),
            (''status'', v_status),
            (''result'', v_result),
            (''error'', v_error),
            (''start_time'', v_start),
            (''end_time'', v_end),
            (''duration'', v_duration)]))))))))"

text \<open>
  \<^verbatim>\<open>save_final_results\<close>: the value is the list written to the file; on an exception
  nothing is written. \<^verbatim>\<open>if task:\<close> skips an empty dict.
\<close>

fun save_final_results :: "json_obj list \<Rightarrow> exn + json_obj list" where
  "save_final_results [] = Inr []"
| "save_final_results (task # rest) =
     (if task \<noteq> []
      then bnd (final_entry task) (\<lambda>entry.
           bnd (save_final_results rest) (\<lambda>entries. Inr (entry # entries)))
      else save_final_results rest)"

text \<open>
  \<^verbatim>\<open>main\<close> from \<^verbatim>\<open>if pending_tasks:\<close> to the call of \<^verbatim>\<open>save_final_results\<close>:
  the value is the content of the result file after the run. (The statistics lines after
  the call come after the file is written.)
\<close>

definition main_results ::
  "researcher \<Rightarrow> file_state \<Rightarrow> ResearchTask list \<Rightarrow> (nat \<Rightarrow> nat \<Rightarrow> attempt) \<Rightarrow> (nat \<Rightarrow> nat)
    \<Rightarrow> exn + json_obj list" where
  "main_results researcher output_file pending_tasks envs sched =
     (if pending_tasks \<noteq> []
      then merge_results output_file pending_tasks
             (snd (process_tasks researcher pending_tasks envs sched))
      else Inr [])"

definition main_file ::
  "researcher \<Rightarrow> file_state \<Rightarrow> ResearchTask list \<Rightarrow> (nat \<Rightarrow> nat \<Rightarrow> attempt) \<Rightarrow> (nat \<Rightarrow> nat)
    \<Rightarrow> exn + json_obj list" where
  "main_file researcher output_file pending_tasks envs sched =
     bnd (main_results researcher output_file pending_tasks envs sched) save_final_results"

text \<open>
  The first read of the result file in \<^verbatim>\<open>main\<close>, which decides what is pending. It
  stands inside \<^verbatim>\<open>try: ... except Exception as e: logger.warning(...)\<close>, so a file
  that cannot be read leaves \<^verbatim>\<open>completed_task_ids\<close> as it is, the empty set when the
  first comprehension raised:
  \<^verbatim>\<open>{result['id'] for result in existing_results if result.get('status') == 'completed'}\<close>.
  (The set \<^verbatim>\<open>failed_task_ids\<close> that follows is only logged.)
\<close>

fun ids_with_status :: "string \<Rightarrow> json_obj list \<Rightarrow> exn + jval list" where
  "ids_with_status st [] = Inr []"
| "ids_with_status st (r # rs) =
     (if dict_get r ''status'' = JStr st
      then bnd (getitem r ''id'') (\<lambda>i.
           bnd (ids_with_status st rs) (\<lambda>ids. Inr (i # ids)))
      else ids_with_status st rs)"

definition completed_task_ids :: "file_state \<Rightarrow> jval list" where
  "completed_task_ids output_file =
     (case output_file of
        Records existing_results \<Rightarrow>
          (case ids_with_status ''completed'' existing_results of
             Inr ids \<Rightarrow> ids
           | Inl e \<Rightarrow> [])
      | NotJson \<Rightarrow> []
      | NoFile \<Rightarrow> [])"

text \<open>\<^verbatim>\<open>[task for task in tasks if task.id not in completed_task_ids]\<close>\<close>

definition pending_tasks_of :: "file_state \<Rightarrow> ResearchTask list \<Rightarrow> ResearchTask list" where
  "pending_tasks_of output_file tasks =
     filter (\<lambda>task. JStr (task_id task) \<notin> set (completed_task_ids output_file)) tasks"

text \<open>
  \<^verbatim>\<open>main\<close> from the tasks built from the prompts to the call of
  \<^verbatim>\<open>save_final_results\<close>. The outer handler of \<^verbatim>\<open>main\<close> logs the exception and
  raises it again.
\<close>

definition main ::
  "researcher \<Rightarrow> file_state \<Rightarrow> ResearchTask list \<Rightarrow> (nat \<Rightarrow> nat \<Rightarrow> attempt) \<Rightarrow> (nat \<Rightarrow> nat)
    \<Rightarrow> exn + json_obj list" where
  "main researcher output_file tasks envs sched =
     main_file researcher output_file (pending_tasks_of output_file tasks) envs sched"

section \<open>browseruse.py and owl.py: strings\<close>

text \<open>
  A Python \<^verbatim>\<open>str\<close> is a sequence of code points. It is modelled as a \<open>string\<close> in
  which a \<open>char\<close> stands for the code point of the same number, so the model covers
  the strings over U+0000 to U+00FF. On that range:
  \<^item> the pattern \<^verbatim>\<open>\d\<close> matches the decimal digits (category Nd), which are 0 to 9;
  \<^item> \<^verbatim>\<open>str.isdigit\<close> holds for a non-empty string of characters whose numeric type
    is Decimal or Digit; these are 0 to 9 and the superscripts U+00B2, U+00B3, U+00B9;
  \<^item> \<^verbatim>\<open>int\<close> takes decimal digits; on a superscript digit it raises ValueError
    (the limit that recent interpreters put on the number of digits, 4300 unless
    configured, is not modelled);
  \<^item> \<^verbatim>\<open>str.lower\<close> maps A to Z, and U+00C0 to U+00DE without U+00D7, 32 places up;
  \<^item> \<^verbatim>\<open>str.strip\<close> removes, at both ends, U+0009 to U+000D, U+001C to U+0020,
    U+0085 and U+00A0.
\<close>

definition code_point :: "char \<Rightarrow> nat" where
  "code_point c = of_char c"

definition decimal_char :: "char \<Rightarrow> bool" where
  "decimal_char c \<longleftrightarrow> 48 \<le> code_point c \<and> code_point c \<le> 57"

definition isdigit_char :: "char \<Rightarrow> bool" where
  "isdigit_char c \<longleftrightarrow>
     decimal_char c \<or> code_point c = 178 \<or> code_point c = 179 \<or> code_point c = 185"

definition isdigit :: "string \<Rightarrow> bool" where
  "isdigit s \<longleftrightarrow> s \<noteq> [] \<and> list_all isdigit_char s"

definition py_int :: "string \<Rightarrow> exn + int" where
  "py_int s =
     (if s \<noteq> [] \<and> list_all decimal_char s
      then Inr (foldl (\<lambda>acc c. 10 * acc + (int (code_point c) - 48)) 0 s)
      else Inl (Exn ''ValueError'' (''invalid literal for int() with base 10: '' @ s)))"

definition lower_char :: "char \<Rightarrow> char" where
  "lower_char c =
     (let n = code_point c
      in if (65 \<le> n \<and> n \<le> 90) \<or> (192 \<le> n \<and> n \<le> 222 \<and> n \<noteq> 215)
         then char_of (n + 32) else c)"

definition lower :: "string \<Rightarrow> string" where
  "lower s = map lower_char s"

definition isspace_char :: "char \<Rightarrow> bool" where
  "isspace_char c \<longleftrightarrow>
     (let n = code_point c
      in (9 \<le> n \<and> n \<le> 13) \<or> (28 \<le> n \<and> n \<le> 32) \<or> n = 133 \<or> n = 160)"

definition strip :: "string \<Rightarrow> string" where
  "strip s = rev (dropWhile isspace_char (rev (dropWhile isspace_char s)))"

section \<open>natural_key\<close>

text \<open>
  \<^verbatim>\<open>re.split(r'(\d+)', name)\<close>: the text before the first run of decimal digits, that
  run, the text up to the next run, and so on; the list ends with the text after the last
  run. A piece of text is empty where the name starts or ends with a digit.
\<close>

function re_split :: "string \<Rightarrow> string list" where
  "re_split name =
     (let text = takeWhile (\<lambda>c. \<not> decimal_char c) name;
          rest = dropWhile (\<lambda>c. \<not> decimal_char c) name
      in if rest = [] then [text]
         else text # takeWhile decimal_char rest # re_split (dropWhile decimal_char rest))"
  by pat_completeness auto
termination
proof (relation "measure length")
  show "wf (measure (length :: string \<Rightarrow> nat))" by simp
next
  fix name pre rest :: string
  assume rest: "rest = dropWhile (\<lambda>c. \<not> decimal_char c) name" and ne: "rest \<noteq> []"
  from ne have "decimal_char (hd rest)"
    unfolding rest using hd_dropWhile [of "\<lambda>c. \<not> decimal_char c" name] by simp
  with ne have "length (dropWhile decimal_char rest) < length rest"
    by (cases rest) (auto simp: less_Suc_eq_le length_dropWhile_le)
  moreover have "length rest \<le> length name"
    unfolding rest by (rule length_dropWhile_le)
  ultimately show "(dropWhile decimal_char rest, name) \<in> measure length"
    by simp
qed

declare re_split.simps [simp del]

text \<open>
  An element of a key is an \<^verbatim>\<open>int\<close> or a \<^verbatim>\<open>str\<close>:
  \<^verbatim>\<open>int(s) if s.isdigit() else s.lower()\<close>.
\<close>

datatype kelem = KInt int | KStr string

definition key_part :: "string \<Rightarrow> exn + kelem" where
  "key_part s = (if isdigit s then bnd (py_int s) (\<lambda>n. Inr (KInt n)) else Inr (KStr (lower s)))"

fun map_exn :: "('a \<Rightarrow> exn + 'b) \<Rightarrow> 'a list \<Rightarrow> exn + 'b list" where
  "map_exn f [] = Inr []"
| "map_exn f (x # xs) = bnd (f x) (\<lambda>y. bnd (map_exn f xs) (\<lambda>ys. Inr (y # ys)))"

definition natural_key :: "string \<Rightarrow> exn + kelem list" where
  "natural_key name = map_exn key_part (re_split name)"

section \<open>Comparing keys and sorting\<close>

text \<open>
  Python compares two strings by code point, two ints by value, and raises TypeError on
  \<^verbatim>\<open><\<close> between an int and a str. Two lists are compared at the first position
  where they differ (by \<^verbatim>\<open>==\<close>, which is false between an int and a str); if there is
  none, the shorter list is the smaller.
\<close>

fun str_lt :: "string \<Rightarrow> string \<Rightarrow> bool" where
  "str_lt [] [] = False"
| "str_lt [] (b # bs) = True"
| "str_lt (a # as) [] = False"
| "str_lt (a # as) (b # bs) =
     (if a = b then str_lt as bs else code_point a < code_point b)"

fun elem_lt :: "kelem \<Rightarrow> kelem \<Rightarrow> exn + bool" where
  "elem_lt (KInt a) (KInt b) = Inr (a < b)"
| "elem_lt (KStr a) (KStr b) = Inr (str_lt a b)"
| "elem_lt _ _ = Inl (Exn ''TypeError'' ''< not supported between instances of int and str'')"

fun key_lt :: "kelem list \<Rightarrow> kelem list \<Rightarrow> exn + bool" where
  "key_lt [] [] = Inr False"
| "key_lt [] (y # ys) = Inr True"
| "key_lt (x # xs) [] = Inr False"
| "key_lt (x # xs) (y # ys) = (if x = y then key_lt xs ys else elem_lt x y)"

text \<open>
  \<^verbatim>\<open>sorted(xs, key=f)\<close> computes the key of every element first, in order, and then
  sorts stably with \<^verbatim>\<open><\<close> on the keys. The stable sort is written as an insertion
  sort: an element goes in front of the first element that is not smaller than it.
\<close>

fun place :: "kelem list \<times> 'a \<Rightarrow> (kelem list \<times> 'a) list \<Rightarrow> exn + (kelem list \<times> 'a) list" where
  "place x [] = Inr [x]"
| "place x (y # ys) =
     bnd (key_lt (fst y) (fst x)) (\<lambda>smaller.
       if smaller then bnd (place x ys) (\<lambda>r. Inr (y # r)) else Inr (x # y # ys))"

fun sort_keyed :: "(kelem list \<times> 'a) list \<Rightarrow> exn + (kelem list \<times> 'a) list" where
  "sort_keyed [] = Inr []"
| "sort_keyed (x # xs) = bnd (sort_keyed xs) (place x)"

definition sorted_py :: "('a \<Rightarrow> exn + kelem list) \<Rightarrow> 'a list \<Rightarrow> exn + 'a list" where
  "sorted_py key xs =
     bnd (map_exn (\<lambda>x. bnd (key x) (\<lambda>k. Inr (k, x))) xs) (\<lambda>keyed.
     bnd (sort_keyed keyed) (\<lambda>r. Inr (map snd r)))"

section \<open>Loading the task list\<close>

text \<open>
  The key function of the loader, \<^verbatim>\<open>lambda x: natural_key(x["folder"])\<close>. The key is
  paired with the str that \<^verbatim>\<open>x["folder"]\<close> gave; \<^verbatim>\<open>re.split\<close> raises TypeError on
  anything that is not a str.
\<close>

definition folder_key :: "json_obj \<Rightarrow> exn + kelem list \<times> string \<times> json_obj" where
  "folder_key x =
     bnd (getitem x ''folder'') (\<lambda>v.
       case v of
         JStr name \<Rightarrow> bnd (natural_key name) (\<lambda>k. Inr (k, name, x))
       | _ \<Rightarrow> Inl (Exn ''TypeError'' ''expected string or bytes-like object''))"

text \<open>\<^verbatim>\<open>item.get("instruct", "").strip()\<close>\<close>

definition instruct_of :: "json_obj \<Rightarrow> exn + string" where
  "instruct_of item =
     (case map_of item ''instruct'' of
        None \<Rightarrow> Inr (strip [])
      | Some (JStr s) \<Rightarrow> Inr (strip s)
      | Some _ \<Rightarrow> Inl (Exn ''AttributeError'' ''object has no attribute strip''))"

text \<open>
  The loop over the sorted items. \<^verbatim>\<open>item.get("folder")\<close> is the str the key function
  read, carried here as \<open>folder_name\<close>. The value is the task list and the items
  reported as skipped.
\<close>

fun load_loop ::
  "(string \<times> json_obj) list \<Rightarrow> exn + (string \<times> string) list \<times> json_obj list" where
  "load_loop [] = Inr ([], [])"
| "load_loop ((folder_name, item) # rest) =
     bnd (instruct_of item) (\<lambda>instruct.
     bnd (load_loop rest) (\<lambda>(tasks, skipped).
       if folder_name = [] \<or> instruct = [] then Inr (tasks, item # skipped)
       else Inr ((folder_name, instruct) # tasks, skipped)))"

definition load_tasks :: "json_obj list \<Rightarrow> exn + (string \<times> string) list \<times> json_obj list" where
  "load_tasks raw_tasks =
     bnd (map_exn folder_key raw_tasks) (\<lambda>keyed.
     bnd (sort_keyed keyed) (\<lambda>ordered. load_loop (map snd ordered)))"

text \<open>
  owl.py then keeps its share:
  \<^verbatim>\<open>tasks = [t for i, t in enumerate(tasks) if i % N_WORKERS == WORKER_ID]\<close>
\<close>

definition WORKER_ID :: nat where
  "WORKER_ID = 1"

definition N_WORKERS :: nat where
  "N_WORKERS = 10"

definition shard :: "'a list \<Rightarrow> 'a list" where
  "shard tasks = map snd (filter (\<lambda>(i, t). i mod N_WORKERS = WORKER_ID) (enumerate 0 tasks))"

definition load_tasks_owl :: "json_obj list \<Rightarrow> exn + (string \<times> string) list \<times> json_obj list" where
  "load_tasks_owl raw_tasks =
     bnd (load_tasks raw_tasks) (\<lambda>(tasks, skipped). Inr (shard tasks, skipped))"

section \<open>The main loops of browseruse.py and owl.py\<close>

text \<open>
  The file system. Which directory a path names is for the file system to say: it
  resolves the path from the working directory, through dots, repeated and trailing
  slashes and links, with or without regard to letter case. The environment gives that
  as \<open>resolve\<close>, the node a path names; \<open>above n\<close> are the nodes over \<open>n\<close>, which
  \<^verbatim>\<open>os.makedirs\<close> creates along with \<open>n\<close> when they are missing; \<open>mkdir_error p\<close> is
  the exception that \<^verbatim>\<open>os.makedirs(p, exist_ok=True)\<close> raises, if it raises. The state
  \<open>fs\<close> is the list of the nodes that exist.
\<close>

record 'n file_env =
  resolve :: "string \<Rightarrow> 'n"
  above :: "'n \<Rightarrow> 'n list"
  mkdir_error :: "string \<Rightarrow> exn option"

text \<open>\<^verbatim>\<open>os.path.exists(p)\<close>\<close>

definition path_exists :: "'n file_env \<Rightarrow> 'n list \<Rightarrow> string \<Rightarrow> bool" where
  "path_exists env fs p \<longleftrightarrow> resolve env p \<in> set fs"

text \<open>\<^verbatim>\<open>os.makedirs(p, exist_ok=True)\<close>\<close>

definition makedirs :: "'n file_env \<Rightarrow> 'n list \<Rightarrow> string \<Rightarrow> exn + 'n list" where
  "makedirs env fs p =
     (case mkdir_error env p of
        Some e \<Rightarrow> Inl e
      | None \<Rightarrow> Inr (resolve env p # above env (resolve env p) @ fs))"

text \<open>
  The collaborator (the browser agent, the workforce) is a function that says, for the
  arguments it is called with, which nodes the run creates and whether it raises.
  Neither loop has an exception handler, so an exception ends the loop. The value of a
  loop is the calls made to the collaborator in order, the file system afterwards, and
  the exception that ended the loop, if any.
\<close>

definition model :: string where
  "model = ''o3''"

definition result_md_request :: string where
  "result_md_request = CHR 0x0A # ''Please save a markdown file (result.md) about the final answer.''"

text \<open>\<^verbatim>\<open>f"./result/{model}/{folder_name}"\<close>\<close>

definition result_dir :: "string \<Rightarrow> string" where
  "result_dir folder_name = ''./result/'' @ model @ ''/'' @ folder_name"

record agent_args =
  agent_task :: string
  save_conversation_path :: string
  file_system_path :: string

fun browseruse_loop ::
  "'n file_env \<Rightarrow> (agent_args \<Rightarrow> 'n list \<times> exn option) \<Rightarrow> 'n list \<Rightarrow> (string \<times> string) list
    \<Rightarrow> agent_args list \<times> 'n list \<times> exn option" where
  "browseruse_loop env run fs [] = ([], fs, None)"
| "browseruse_loop env run fs ((folder_name, task_text) # rest) =
     (let save_dir = result_dir folder_name;
          fs_path = result_dir folder_name @ ''/workplace''
      in if path_exists env fs save_dir then browseruse_loop env run fs rest
         else (case makedirs env fs save_dir of
                 Inl e \<Rightarrow> ([], fs, Some e)
               | Inr fs1 \<Rightarrow>
                   let agent = \<lparr>agent_task = task_text @ result_md_request,
                                save_conversation_path = save_dir,
                                file_system_path = fs_path\<rparr>
                   in (case run agent of
                         (created, Some e) \<Rightarrow> ([agent], created @ fs1, Some e)
                       | (created, None) \<Rightarrow>
                           (case browseruse_loop env run (created @ fs1) rest of
                              (calls, fs2, r) \<Rightarrow> (agent # calls, fs2, r)))))"

definition browseruse_main ::
  "'n file_env \<Rightarrow> (agent_args \<Rightarrow> 'n list \<times> exn option) \<Rightarrow> 'n list \<Rightarrow> (string \<times> string) list
    \<Rightarrow> agent_args list \<times> 'n list \<times> exn option" where
  "browseruse_main env run fs tasks =
     (if tasks = [] then ([], fs, None) else browseruse_loop env run fs tasks)"

definition MODEL_NAME :: string where
  "MODEL_NAME = []"

text \<open>\<^verbatim>\<open>f"./workforce-result/{MODEL_NAME}/{folder_name}"\<close>\<close>

definition workforce_result_dir :: "string \<Rightarrow> string" where
  "workforce_result_dir folder_name = ''./workforce-result/'' @ MODEL_NAME @ ''/'' @ folder_name"

record execute_agent_args =
  task_desc :: string
  working_dir :: string

text \<open>
  \<^verbatim>\<open>execute_agent\<close> of owl.py first creates its working directory, then builds and runs
  the workforce; \<open>workforce\<close> stands for all that follows the \<^verbatim>\<open>os.makedirs\<close>. The
  value is the file system afterwards and the exception raised, if any.
\<close>

definition execute_agent ::
  "'n file_env \<Rightarrow> (execute_agent_args \<Rightarrow> 'n list \<times> exn option) \<Rightarrow> 'n list \<Rightarrow> execute_agent_args
    \<Rightarrow> 'n list \<times> exn option" where
  "execute_agent env workforce fs call =
     (case makedirs env fs (working_dir call) of
        Inl e \<Rightarrow> (fs, Some e)
      | Inr fs1 \<Rightarrow> (case workforce call of (created, r) \<Rightarrow> (created @ fs1, r)))"

fun owl_loop ::
  "'n file_env \<Rightarrow> (execute_agent_args \<Rightarrow> 'n list \<times> exn option) \<Rightarrow> 'n list \<Rightarrow> (string \<times> string) list
    \<Rightarrow> execute_agent_args list \<times> 'n list \<times> exn option" where
  "owl_loop env workforce fs [] = ([], fs, None)"
| "owl_loop env workforce fs ((folder_name, task_text) # rest) =
     (let save_dir = workforce_result_dir folder_name;
          fs_path = workforce_result_dir folder_name @ ''/workplace''
      in if path_exists env fs save_dir then owl_loop env workforce fs rest
         else (case makedirs env fs save_dir of
                 Inl e \<Rightarrow> ([], fs, Some e)
               | Inr fs1 \<Rightarrow>
                   let call = \<lparr>task_desc = task_text, working_dir = fs_path\<rparr>
                   in (case execute_agent env workforce fs1 call of
                         (fs2, Some e) \<Rightarrow> ([call], fs2, Some e)
                       | (fs2, None) \<Rightarrow>
                           (case owl_loop env workforce fs2 rest of
                              (calls, fs3, r) \<Rightarrow> (call # calls, fs3, r)))))"

definition owl_main ::
  "'n file_env \<Rightarrow> (execute_agent_args \<Rightarrow> 'n list \<times> exn option) \<Rightarrow> 'n list \<Rightarrow> (string \<times> string) list
    \<Rightarrow> execute_agent_args list \<times> 'n list \<times> exn option" where
  "owl_main env workforce fs tasks =
     (if tasks = [] then ([], fs, None) else owl_loop env workforce fs tasks)"

section \<open>Inputs and predicates used in the statements\<close>

text \<open>
  Two behaviours of the remote call: it raises on every attempt, or it raises on the
  first attempt and answers on the second.
\<close>

definition always_down :: "nat \<Rightarrow> attempt" where
  "always_down k = \<lparr>t_start = 100, response = Inl (Exn ''APIError'' ''down''), t_end = 101\<rparr>"

definition down_once :: "nat \<Rightarrow> attempt" where
  "down_once k =
     (if k = 1 then \<lparr>t_start = 100, response = Inl (Exn ''APIError'' ''down''), t_end = 101\<rparr>
      else \<lparr>t_start = 200, response = Inr ''answer'', t_end = 205\<rparr>)"

text \<open>
  What holds of a task once the decorated call is over, whatever the remote call did:
  \<open>task\<close> is the task before, \<open>task'\<close> the task after, \<open>out\<close> what the call
  returned or raised.
\<close>

definition settled :: "ResearchTask \<Rightarrow> ResearchTask \<Rightarrow> (exn + ResearchTask option) \<Rightarrow> bool" where
  "settled task task' out \<longleftrightarrow>
     task_id task' = task_id task \<and> prompt task' = prompt task \<and>
     retry_count task' = retry_count task \<and>
     end_time task' \<noteq> None \<and> start_time task' \<noteq> None \<and>
     ((out = Inr (Some task') \<and> status task' = ''completed'' \<and> result task' \<noteq> None) \<or>
      (isl out \<and> status task' = ''failed'' \<and> error task' \<noteq> None))"

text \<open>
  The dicts that \<^verbatim>\<open>main\<close> builds from what \<^verbatim>\<open>process_tasks\<close> returned, in the
  order of completion.
\<close>

definition new_records ::
  "researcher \<Rightarrow> ResearchTask list \<Rightarrow> (nat \<Rightarrow> nat \<Rightarrow> attempt) \<Rightarrow> (nat \<Rightarrow> nat) \<Rightarrow> json_obj list" where
  "new_records researcher pending_tasks envs sched =
     map task_dict (List.map_filter (\<lambda>t. t) (snd (process_tasks researcher pending_tasks envs sched)))"

definition rec_id :: "json_obj \<Rightarrow> jval" where
  "rec_id r = dict_get r ''id''"

text \<open>
  A record of an earlier result file as \<^verbatim>\<open>save_final_results\<close> can read it: the seven
  keys are there and the two time stamps are numbers or null. A result file is usable
  when it is absent or a list of such records.
\<close>

definition is_time :: "jval \<Rightarrow> bool" where
  "is_time v = (case v of JStr s \<Rightarrow> False | _ \<Rightarrow> True)"

definition well_formed :: "json_obj \<Rightarrow> bool" where
  "well_formed r \<longleftrightarrow>
     list_all (\<lambda>k. map_of r k \<noteq> None)
       [''id'', ''prompt'', ''status'', ''result'', ''error'', ''start_time'', ''end_time''] \<and>
     is_time (dict_get r ''start_time'') \<and> is_time (dict_get r ''end_time'')"

fun usable :: "file_state \<Rightarrow> bool" where
  "usable NoFile = True"
| "usable NotJson = False"
| "usable (Records rs) = list_all well_formed rs"

text \<open>
  The merge as the specification words it: a previous record whose id appears in
  \<open>new\<close> is replaced where it stands, the other previous records are kept, and the
  new records whose id was not in \<open>previous\<close> are appended.
\<close>

definition merge_spec :: "json_obj list \<Rightarrow> json_obj list \<Rightarrow> json_obj list" where
  "merge_spec previous new =
     map (\<lambda>r. case find (\<lambda>n. rec_id n = rec_id r) new of Some n \<Rightarrow> n | None \<Rightarrow> r) previous
     @ filter (\<lambda>n. rec_id n \<notin> set (map rec_id previous)) new"

text \<open>Two records of an earlier run: task a failed, task b completed.\<close>

definition rec_a_failed :: json_obj where
  "rec_a_failed =
     [(''id'', JStr ''a''), (''prompt'', JStr ''p''), (''status'', JStr ''failed''),
      (''result'', JNull), (''error'', JStr ''APIError: down''),
      (''start_time'', JFloat 10), (''end_time'', JFloat 90), (''duration'', JFloat 80)]"

definition rec_b_done :: json_obj where
  "rec_b_done =
     [(''id'', JStr ''b''), (''prompt'', JStr ''q''), (''status'', JStr ''completed''),
      (''result'', JStr ''done''), (''error'', JNull),
      (''start_time'', JFloat 10), (''end_time'', JFloat 20), (''duration'', JFloat 10)]"

text \<open>
  The two main loops have one shape: skip the task if its directory exists, else create
  the directory and call the collaborator, stopping at an exception. \<open>skip_loop\<close> is
  that shape. Its parameters: \<open>node f\<close> is the directory of the folder name \<open>f\<close>,
  \<open>prep f\<close> the exception raised while the directory is created, \<open>mk f t\<close> the call
  made for a task, and \<open>act f t\<close> what creating the directory and making the call
  adds to the file system, with the exception raised by the call. The two loops are
  shown to be instances of it.
\<close>

fun skip_loop ::
  "(string \<Rightarrow> 'n) \<Rightarrow> (string \<Rightarrow> exn option) \<Rightarrow> (string \<Rightarrow> string \<Rightarrow> 'n list \<times> exn option)
    \<Rightarrow> (string \<Rightarrow> string \<Rightarrow> 'c) \<Rightarrow> 'n list \<Rightarrow> (string \<times> string) list
    \<Rightarrow> 'c list \<times> 'n list \<times> exn option" where
  "skip_loop node prep act mk fs [] = ([], fs, None)"
| "skip_loop node prep act mk fs ((folder_name, task_text) # rest) =
     (if node folder_name \<in> set fs then skip_loop node prep act mk fs rest
      else (case prep folder_name of
              Some e \<Rightarrow> ([], fs, Some e)
            | None \<Rightarrow>
                (case act folder_name task_text of
                   (made, Some e) \<Rightarrow> ([mk folder_name task_text], made @ fs, Some e)
                 | (made, None) \<Rightarrow>
                     (case skip_loop node prep act mk (made @ fs) rest of
                        (calls, fs2, r) \<Rightarrow> (mk folder_name task_text # calls, fs2, r)))))"

text \<open>The call each loop makes for a task it does not skip.\<close>

definition browseruse_call :: "string \<Rightarrow> string \<Rightarrow> agent_args" where
  "browseruse_call folder_name task_text =
     \<lparr>agent_task = task_text @ result_md_request,
      save_conversation_path = result_dir folder_name,
      file_system_path = result_dir folder_name @ ''/workplace''\<rparr>"

definition owl_call :: "string \<Rightarrow> string \<Rightarrow> execute_agent_args" where
  "owl_call folder_name task_text =
     \<lparr>task_desc = task_text, working_dir = workforce_result_dir folder_name @ ''/workplace''\<rparr>"

text \<open>
  What the run of one task adds to the file system and the exception it ends with: in
  browseruse.py the task's directory, the nodes over it and what the agent creates; in
  owl.py also the working directory and the nodes over it, unless creating the working
  directory raises.
\<close>

definition browseruse_act ::
  "'n file_env \<Rightarrow> (agent_args \<Rightarrow> 'n list \<times> exn option) \<Rightarrow> string \<Rightarrow> string \<Rightarrow> 'n list \<times> exn option" where
  "browseruse_act env run f t =
     (case run (browseruse_call f t) of
        (created, r) \<Rightarrow>
          (created @ resolve env (result_dir f) # above env (resolve env (result_dir f)), r))"

definition owl_act ::
  "'n file_env \<Rightarrow> (execute_agent_args \<Rightarrow> 'n list \<times> exn option) \<Rightarrow> string \<Rightarrow> string
    \<Rightarrow> 'n list \<times> exn option" where
  "owl_act env workforce f t =
     (case mkdir_error env (workforce_result_dir f @ ''/workplace'') of
        Some e \<Rightarrow>
          (resolve env (workforce_result_dir f) # above env (resolve env (workforce_result_dir f)),
           Some e)
      | None \<Rightarrow>
          (case workforce (owl_call f t) of
             (created, r) \<Rightarrow>
               (created
                @ resolve env (workforce_result_dir f @ ''/workplace'')
                # above env (resolve env (workforce_result_dir f @ ''/workplace''))
                @ resolve env (workforce_result_dir f)
                # above env (resolve env (workforce_result_dir f)), r)))"



definition run_ok :: "'c \<Rightarrow> 'n list \<times> exn option" where
  "run_ok c = ([], None)"

text \<open>
  A file system for the examples, in which a directory is the list of the names on the
  way to it from the working directory: a path is cut at the slashes, empty names and
  single dots are dropped, and a double dot goes one name back. The nodes over a
  directory are its proper beginnings, and no directory fails to be created.
\<close>

fun split_slash :: "string \<Rightarrow> string list" where
  "split_slash [] = [[]]"
| "split_slash (c # cs) =
     (if c = CHR ''/'' then [] # split_slash cs
      else (case split_slash cs of
              p # ps \<Rightarrow> (c # p) # ps
            | [] \<Rightarrow> [[c]]))"

fun walk :: "string list \<Rightarrow> string list \<Rightarrow> string list" where
  "walk up [] = rev up"
| "walk up (c # cs) =
     (if c = [] \<or> c = ''.'' then walk up cs
      else if c = ''..'' then walk (tl up) cs
      else walk (c # up) cs)"

definition plain_fs :: "string list file_env" where
  "plain_fs =
     \<lparr>resolve = (\<lambda>p. walk [] (split_slash p)),
      above = (\<lambda>n. map (\<lambda>k. take k n) [1..<length n]),
      mkdir_error = (\<lambda>p. None)\<rparr>"



text \<open>A task list of twelve entries, t0 to t11, in the order in which strings compare.\<close>

definition twelve_raw :: "json_obj list" where
  "twelve_raw =
     map (\<lambda>s. [(''folder'', JStr s), (''instruct'', JStr (''do '' @ s))])
       [''t0'', ''t1'', ''t10'', ''t11'', ''t2'', ''t3'', ''t4'', ''t5'', ''t6'', ''t7'', ''t8'', ''t9'']"

definition twelve_tasks :: "(string \<times> string) list" where
  "twelve_tasks =
     map (\<lambda>s. (s, ''do '' @ s))
       [''t0'', ''t1'', ''t2'', ''t3'', ''t4'', ''t5'', ''t6'', ''t7'', ''t8'', ''t9'', ''t10'', ''t11'']"

text \<open>
  The shape of what \<^verbatim>\<open>re.split\<close> gives and of a key: text and digits take turns,
  text first. \<open>alt_pieces True\<close> says so of a list of pieces, \<open>alt_key True\<close> of a
  key.
\<close>

fun alt_pieces :: "bool \<Rightarrow> string list \<Rightarrow> bool" where
  "alt_pieces b [] = True"
| "alt_pieces True (p # ps) = (list_all (\<lambda>c. \<not> decimal_char c) p \<and> alt_pieces False ps)"
| "alt_pieces False (p # ps) = (p \<noteq> [] \<and> list_all decimal_char p \<and> alt_pieces True ps)"

fun alt_key :: "bool \<Rightarrow> kelem list \<Rightarrow> bool" where
  "alt_key b [] = True"
| "alt_key True (KStr s # ks) = alt_key False ks"
| "alt_key True (KInt n # ks) = False"
| "alt_key False (KInt n # ks) = alt_key True ks"
| "alt_key False (KStr s # ks) = False"

text \<open>
  A key as a value of a linearly ordered type: a list of pairs, compared as lists
  (prefix first, else at the first difference), the pairs compared by number and then by
  text. \<open>order_code\<close> is that value for a name whose key can be computed.
\<close>

fun enc :: "kelem \<Rightarrow> int \<times> string" where
  "enc (KInt n) = (n, [])"
| "enc (KStr s) = (0, s)"

definition order_code :: "string \<Rightarrow> (int \<times> string) list" where
  "order_code name = (case natural_key name of Inr k \<Rightarrow> map enc k | Inl e \<Rightarrow> [])"

text \<open>A name without the three superscript digits of the range.\<close>

definition plain :: "string \<Rightarrow> bool" where
  "plain name \<longleftrightarrow> list_all (\<lambda>c. code_point c \<noteq> 178 \<and> code_point c \<noteq> 179 \<and> code_point c \<noteq> 185) name"

section \<open>One attempt and the retry loop\<close>

lemma body_raise:
  "response a = Inl e \<Longrightarrow>
   execute_research_body a (self, task) =
     ((self\<lparr>failed_count := failed_count self + 1\<rparr>,
       task\<lparr>start_time := Some (t_start a), status := ''failed'',
            error := Some (exn_text e), end_time := Some (t_end a)\<rparr>), Inl e)"
  by (simp add: execute_research_body_def)

lemma body_return:
  "response a = Inr out \<Longrightarrow>
   execute_research_body a (self, task) =
     ((self\<lparr>completed_count := completed_count self + 1\<rparr>,
       task\<lparr>start_time := Some (t_start a), result := Some out, status := ''completed'',
            end_time := Some (t_end a)\<rparr>),
      Inr (task\<lparr>start_time := Some (t_start a), result := Some out, status := ''completed'',
            end_time := Some (t_end a)\<rparr>))"
  by (simp add: execute_research_body_def Let_def)

text \<open>The call of the callback always raises: one argument for two parameters.\<close>

lemma retry_error_callback_raises:
  "retry_error_callback e =
     Inl (Exn ''TypeError'' ''missing required positional argument: retry_state'')"
  by (simp add: retry_error_callback_def bind_positional_def
      retry_error_callback_params_def bnd_def)

text \<open>
  If the remote call raises on every attempt from \<open>k\<close> to \<open>N\<close>, the loop makes
  attempt \<open>N\<close> and stops there, having slept after each attempt before it. The task
  carries the text of the last exception; its \<open>retry_count\<close> is what it was.
\<close>

lemma retrying_exhaust:
  assumes "\<And>j. k \<le> j \<Longrightarrow> j \<le> N \<Longrightarrow> isl (response (env j))" and "k \<le> N"
  shows "\<exists>self' task'. retrying N w cb (\<lambda>k. execute_research_body (env k)) k (self, task)
            = ((self', task'), map w [k..<N], N, cb (projl (response (env N))))
          \<and> status task' = ''failed''
          \<and> error task' = Some (exn_text (projl (response (env N))))
          \<and> end_time task' = Some (t_end (env N))
          \<and> start_time task' = Some (t_start (env N))
          \<and> result task' = result task
          \<and> retry_count task' = retry_count task
          \<and> task_id task' = task_id task \<and> prompt task' = prompt task"
  using assms
proof (induction "N - k" arbitrary: k self task)
  case 0
  then have kN: "k = N" by simp
  from 0 kN have "isl (response (env N))" by simp
  then obtain e where e: "response (env N) = Inl e" by (cases "response (env N)") auto
  show ?case
    by (subst retrying.simps) (simp add: kN body_raise [OF e] e stop_after_attempt_def)
next
  case (Suc d)
  then have lt: "k < N" by simp
  from Suc.prems have "isl (response (env k))" by simp
  then obtain e where e: "response (env k) = Inl e" by (cases "response (env k)") auto
  have d: "d = N - Suc k" using Suc.hyps by simp
  let ?self1 = "self\<lparr>failed_count := failed_count self + 1\<rparr>"
  let ?task1 = "task\<lparr>start_time := Some (t_start (env k)), status := ''failed'',
            error := Some (exn_text e), end_time := Some (t_end (env k))\<rparr>"
  have later: "\<And>j. Suc k \<le> j \<Longrightarrow> j \<le> N \<Longrightarrow> isl (response (env j))"
    using Suc.prems(1) by simp
  from lt have le: "Suc k \<le> N" by simp
  from Suc.hyps(1) [OF d later le, of ?self1 ?task1]
  obtain self' task' where
    r: "retrying N w cb (\<lambda>k. execute_research_body (env k)) (Suc k) (?self1, ?task1)
            = ((self', task'), map w [Suc k..<N], N, cb (projl (response (env N))))"
    and p: "status task' = ''failed''"
          "error task' = Some (exn_text (projl (response (env N))))"
          "end_time task' = Some (t_end (env N))"
          "start_time task' = Some (t_start (env N))"
          "result task' = result ?task1"
          "retry_count task' = retry_count ?task1"
          "task_id task' = task_id ?task1" "prompt task' = prompt ?task1"
    by blast
  have "retrying N w cb (\<lambda>k. execute_research_body (env k)) k (self, task)
            = ((self', task'), map w [k..<N], N, cb (projl (response (env N))))"
    using lt r
    by (subst retrying.simps) (simp add: body_raise [OF e] stop_after_attempt_def upt_conv_Cons)
  with p show ?case by simp
qed

text \<open>Whatever the remote call does, the loop ends and leaves the task settled.\<close>

lemma retrying_settled:
  "\<exists>self' task' sl n out.
      retrying N w retry_error_callback (\<lambda>k. execute_research_body (env k)) k (self, task)
        = ((self', task'), sl, n, out) \<and> settled task task' out"
proof (induction "N - k" arbitrary: k self task)
  case 0
  then have stop: "stop_after_attempt N k" by (simp add: stop_after_attempt_def)
  show ?case
  proof (cases "response (env k)")
    case (Inl e)
    show ?thesis
      by (subst retrying.simps)
         (simp add: body_raise [OF Inl] stop settled_def retry_error_callback_raises)
  next
    case (Inr out)
    show ?thesis
      by (subst retrying.simps) (simp add: body_return [OF Inr] settled_def)
  qed
next
  case (Suc d)
  then have go: "\<not> stop_after_attempt N k" and d: "d = N - Suc k"
    by (simp_all add: stop_after_attempt_def)
  show ?case
  proof (cases "response (env k)")
    case (Inl e)
    let ?self1 = "self\<lparr>failed_count := failed_count self + 1\<rparr>"
    let ?task1 = "task\<lparr>start_time := Some (t_start (env k)), status := ''failed'',
            error := Some (exn_text e), end_time := Some (t_end (env k))\<rparr>"
    from Suc.hyps(1) [OF d, of ?self1 ?task1]
    obtain self' task' sl n out where
      r: "retrying N w retry_error_callback (\<lambda>k. execute_research_body (env k)) (Suc k)
            (?self1, ?task1) = ((self', task'), sl, n, out)"
      and s: "settled ?task1 task' out"
      by blast
    have "retrying N w retry_error_callback (\<lambda>k. execute_research_body (env k)) k (self, task)
            = ((self', task'), w k # sl, n, out)"
      using go r by (subst retrying.simps) (simp add: body_raise [OF Inl])
    moreover from s have "settled task task' out"
      by (simp add: settled_def)
    ultimately show ?thesis by blast
  next
    case (Inr out)
    show ?thesis
      by (subst retrying.simps) (simp add: body_return [OF Inr] settled_def)
  qed
qed

lemma execute_research_settled:
  "\<exists>self' task' sl n out.
      execute_research env (self, task) = ((self', task'), sl, n, out) \<and> settled task task' out"
  unfolding execute_research_def by (rule retrying_settled)

text \<open>
  The waits of the decorator line: \<open>min (2 ^ (k - 1)) 15\<close> after attempt \<open>k\<close>, so
  between 1 and 15 and never shrinking.
\<close>

lemma wait_exponential_bounds:
  "1 \<le> wait_exponential 1 1 15 k \<and> wait_exponential 1 1 15 k \<le> 15"
  by (simp add: wait_exponential_def)

lemma wait_exponential_mono:
  assumes "j \<le> k"
  shows "wait_exponential 1 1 15 j \<le> wait_exponential 1 1 15 k"
proof -
  have clamp: "max (max 0 1) (min (1 * a) 15) \<le> max (max 0 1) (min (1 * b) 15)"
    if "a \<le> b" for a b :: real
    using that by (simp add: min_def max_def)
  from assms have "(2::real) ^ (j - 1) \<le> 2 ^ (k - 1)"
    by (intro power_increasing) simp_all
  then show ?thesis
    unfolding wait_exponential_def by (rule clamp)
qed

text \<open>
  Exhaustion in general: whatever \<^verbatim>\<open>max_retries\<close> the client was built with, a task
  whose remote call raises on each of the attempts 1 to 10 gets exactly 10 attempts.
\<close>

lemma exhaustion_is_ten_attempts:
  assumes "\<And>j. 1 \<le> j \<Longrightarrow> j \<le> 10 \<Longrightarrow> isl (response (env j))"
  shows "attempts_made env self task = 10
       \<and> sleeps_made env self task = map (wait_exponential 1 1 15) [1..<10]
       \<and> status (task_after env self task) = ''failed''
       \<and> error (task_after env self task) = Some (exn_text (projl (response (env 10))))
       \<and> retry_count (task_after env self task) = retry_count task"
proof -
  from retrying_exhaust [of 1 10 env "wait_exponential 1 1 15" retry_error_callback self task]
    assms
  obtain self' task' where
    "execute_research env (self, task)
       = ((self', task'), map (wait_exponential 1 1 15) [1..<10], 10,
          retry_error_callback (projl (response (env 10))))"
    and "status task' = ''failed''"
    and "error task' = Some (exn_text (projl (response (env 10))))"
    and "retry_count task' = retry_count task"
    unfolding execute_research_def by auto
  then show ?thesis
    by (simp add: attempts_made_def sleeps_made_def task_after_def)
qed

section \<open>The claims about the retry loop and the task record\<close>

text \<open>
  Claim C2. The claim: a task whose remote call raises on every attempt stops after
  exactly \<^verbatim>\<open>max_retries\<close> attempts, ends with status failed and with
  \<^verbatim>\<open>retry_count == max_retries\<close>, the waits being between 1 and 15. The code at a
  client built with \<^verbatim>\<open>max_retries = 3\<close>: the task gets 10 attempts and ends failed
  with \<^verbatim>\<open>retry_count\<close> 0, after the waits 1, 2, 4, 8, 15, 15, 15, 15, 15. The stop
  count is the literal of the decorator line, and nothing increments
  \<^verbatim>\<open>retry_count\<close>.
\<close>

theorem C2_ten_attempts_whatever_max_retries:
  "max_retries (init_researcher 3 3 1) = 3 \<and>
   attempts_made always_down (init_researcher 3 3 1) (new_task ''a'' ''p'') = 10 \<and>
   status (task_after always_down (init_researcher 3 3 1) (new_task ''a'' ''p'')) = ''failed'' \<and>
   retry_count (task_after always_down (init_researcher 3 3 1) (new_task ''a'' ''p'')) = 0 \<and>
   sleeps_made always_down (init_researcher 3 3 1) (new_task ''a'' ''p'')
     = [1, 2, 4, 8, 15, 15, 15, 15, 15]"
  by code_simp

text \<open>
  Claim C3. The claim: after execution, status completed implies that the result is set
  and the error is \<^verbatim>\<open>None\<close>; status failed implies that the error is set; the end
  time is set exactly when the status is completed or failed. The code where the remote
  call raises once and then answers: the task ends completed with its result set and
  with the error text of the first attempt still in place, since a later attempt does
  not clear \<^verbatim>\<open>task.error\<close>.
\<close>

theorem C3_completed_task_keeps_error:
  "status (task_after down_once (init_researcher 3 10 1) (new_task ''a'' ''p'')) = ''completed'' \<and>
   result (task_after down_once (init_researcher 3 10 1) (new_task ''a'' ''p'')) = Some ''answer'' \<and>
   error (task_after down_once (init_researcher 3 10 1) (new_task ''a'' ''p''))
     = Some ''APIError: down'' \<and>
   end_time (task_after down_once (init_researcher 3 10 1) (new_task ''a'' ''p'')) = Some 205"
  by code_simp

text \<open>
  The rest of the invariant holds for every behaviour of the remote call: after
  execution the status is completed or failed, the end time is set, a completed task has
  a result and a failed task has an error.
\<close>

lemma after_execution:
  "(status (task_after env self task) = ''completed'' \<or>
      status (task_after env self task) = ''failed'') \<and>
   end_time (task_after env self task) \<noteq> None \<and>
   (status (task_after env self task) = ''completed''
      \<longrightarrow> result (task_after env self task) \<noteq> None) \<and>
   (status (task_after env self task) = ''failed''
      \<longrightarrow> error (task_after env self task) \<noteq> None)"
proof -
  from execute_research_settled [of env self task]
  obtain self' task' sl n out where
    "execute_research env (self, task) = ((self', task'), sl, n, out)"
    and "settled task task' out"
    by blast
  then show ?thesis
    by (auto simp: task_after_def settled_def)
qed

section \<open>The result file\<close>

lemma final_entry_keys:
  "final_entry task = Inr entry \<Longrightarrow>
   map fst entry = [''id'', ''prompt'', ''status'', ''result'', ''error'',
                    ''start_time'', ''end_time'', ''duration'']"
  by (auto simp: final_entry_def bnd_def split: sum.splits if_splits)

text \<open>No entry that \<^verbatim>\<open>save_final_results\<close> writes has the key \<^verbatim>\<open>retry_count\<close>.\<close>

lemma save_final_results_keys:
  "save_final_results results = Inr entries \<Longrightarrow> entry \<in> set entries \<Longrightarrow>
   map fst entry = [''id'', ''prompt'', ''status'', ''result'', ''error'',
                    ''start_time'', ''end_time'', ''duration'']"
proof (induction results arbitrary: entries)
  case Nil
  then show ?case by simp
next
  case (Cons task rest)
  show ?case
  proof (cases "task = []")
    case True
    with Cons show ?thesis by simp
  next
    case False
    with Cons.prems(1) obtain e es where
      e: "final_entry task = Inr e" and es: "save_final_results rest = Inr es"
      and entries: "entries = e # es"
      by (auto simp: bnd_def split: sum.splits)
    from Cons.prems(2) entries have "entry = e \<or> entry \<in> set es" by simp
    then show ?thesis
      using final_entry_keys [OF e] Cons.IH [OF es] by blast
  qed
qed

text \<open>
  Claim C6. The claim: every object written to the final result file has exactly the
  fields id, prompt, status, result, error, start_time, end_time, duration and
  retry_count, and duration is the end time minus the start time when both are present
  and null otherwise. The code for one task that raises once and then answers, with no
  earlier result file: the object written has eight fields and no \<^verbatim>\<open>retry_count\<close>.
  \<^verbatim>\<open>main\<close> puts \<^verbatim>\<open>retry_count\<close> into the merged dict, as
  \<^verbatim>\<open>save_temp_results\<close> does into its file, and \<^verbatim>\<open>save_final_results\<close>
  copies the other eight only.
\<close>

theorem C6_final_file_has_no_retry_count:
  "task_dict (task_after down_once (init_researcher 3 10 1) (new_task ''a'' ''p''))
     = [(''id'', JStr ''a''), (''prompt'', JStr ''p''), (''status'', JStr ''completed''),
        (''result'', JStr ''answer''), (''error'', JStr ''APIError: down''),
        (''start_time'', JFloat 200), (''end_time'', JFloat 205), (''duration'', JFloat 5),
        (''retry_count'', JInt 0)] \<and>
   main_file (init_researcher 3 10 1) NoFile [new_task ''a'' ''p''] (\<lambda>i. down_once) (\<lambda>step. 0)
     = Inr [[(''id'', JStr ''a''), (''prompt'', JStr ''p''), (''status'', JStr ''completed''),
             (''result'', JStr ''answer''), (''error'', JStr ''APIError: down''),
             (''start_time'', JFloat 200), (''end_time'', JFloat 205), (''duration'', JFloat 5)]]"
  by code_simp

text \<open>
  The duration is computed from the truth values of the two time stamps, so a start time
  of 0 counts as absent.
\<close>

lemma duration_null_at_start_zero:
  "final_entry [(''id'', JStr ''a''), (''prompt'', JStr ''p''), (''status'', JStr ''completed''),
                (''result'', JStr ''r''), (''error'', JNull),
                (''start_time'', JFloat 0), (''end_time'', JFloat 5)]
   = Inr [(''id'', JStr ''a''), (''prompt'', JStr ''p''), (''status'', JStr ''completed''),
          (''result'', JStr ''r''), (''error'', JNull),
          (''start_time'', JFloat 0), (''end_time'', JFloat 5), (''duration'', JNull)]"
  by code_simp

section \<open>Loading and ordering the task list\<close>

text \<open>
  Claim C8. The claim: an entry of the task list that has no id, or whose prompt is empty
  or blank, is dropped with a warning, and the other entries are loaded. The code on a
  list whose first entry has no \<^verbatim>\<open>folder\<close>: the key function of \<^verbatim>\<open>sorted\<close>
  reads \<^verbatim>\<open>x["folder"]\<close> and raises KeyError before the loop that would skip the
  entry is reached, in both drivers; nothing is loaded. The loop itself reads the field
  with \<^verbatim>\<open>item.get("folder")\<close> and tests \<^verbatim>\<open>not folder_name\<close>.
\<close>

theorem C8_entry_without_folder_is_fatal:
  "load_tasks [[(''instruct'', JStr ''do x'')],
               [(''folder'', JStr ''a''), (''instruct'', JStr ''do a'')]]
     = Inl (Exn ''KeyError'' ''folder'') \<and>
   load_tasks_owl [[(''instruct'', JStr ''do x'')],
                   [(''folder'', JStr ''a''), (''instruct'', JStr ''do a'')]]
     = Inl (Exn ''KeyError'' ''folder'')"
  by code_simp

text \<open>
  The other half of the claim holds: an entry without a prompt, or with a blank one, is
  reported and left out, and the entries around it are loaded.
\<close>

lemma blank_prompt_is_skipped:
  "load_tasks [[(''folder'', JStr ''b''), (''instruct'', JStr '' do b '')],
               [(''folder'', JStr ''a''), (''instruct'', JStr ''   '')],
               [(''folder'', JStr ''c'')],
               [(''folder'', JStr ''a2''), (''instruct'', JStr ''do a2'')]]
     = Inr ([(''a2'', ''do a2''), (''b'', ''do b'')],
            [[(''folder'', JStr ''a''), (''instruct'', JStr ''   '')],
             [(''folder'', JStr ''c'')]])"
  by code_simp

text \<open>
  Claim C5. The claim: tasks are ordered by the natural key of the id (runs of digits
  compare as numbers, the text between them without regard to case), the sort is
  deterministic and total for every input list, and task2, task10, task1 come out as
  task1, task2, task10. The code on an id in which a piece of text between the runs of
  decimal digits consists of superscript digits only, here the id made of 1, 0 and
  U+00B2: \<^verbatim>\<open>re.split\<close> leaves the superscript as a piece of text,
  \<^verbatim>\<open>isdigit\<close> holds of it, and \<^verbatim>\<open>int\<close> raises ValueError; the sort of a list
  with that id raises, and so does the loading of a task list with that folder.
\<close>

theorem C5_superscript_digit_raises:
  "re_split [CHR ''1'', CHR ''0'', CHR 0xB2] = [[], ''10'', [CHR 0xB2]] \<and>
   isdigit [CHR 0xB2] \<and>
   natural_key [CHR ''1'', CHR ''0'', CHR 0xB2]
     = Inl (Exn ''ValueError'' (''invalid literal for int() with base 10: '' @ [CHR 0xB2])) \<and>
   sorted_py natural_key [''task2'', [CHR ''1'', CHR ''0'', CHR 0xB2], ''task1'']
     = Inl (Exn ''ValueError'' (''invalid literal for int() with base 10: '' @ [CHR 0xB2])) \<and>
   load_tasks [[(''folder'', JStr ''task2''), (''instruct'', JStr ''x'')],
               [(''folder'', JStr [CHR ''1'', CHR ''0'', CHR 0xB2]), (''instruct'', JStr ''y'')]]
     = Inl (Exn ''ValueError'' (''invalid literal for int() with base 10: '' @ [CHR 0xB2]))"
  by code_simp

text \<open>The example of the claim is as the claim says.\<close>

lemma natural_sort_example:
  "sorted_py natural_key [''task2'', ''task10'', ''task1''] = Inr [''task1'', ''task2'', ''task10'']"
  by code_simp

lemma natural_sort_ignores_case_and_keeps_ties:
  "sorted_py natural_key [''b'', ''A'', ''a'', ''B'', ''a007'', ''a7'']
     = Inr [''A'', ''a'', ''a007'', ''a7'', ''b'', ''B'']"
  by code_simp

section \<open>The coordinator\<close>

text \<open>
  The counters of the client do not influence what happens to a task, so the task after
  execution is the same whichever state of the counters the worker thread found.
\<close>

lemma retrying_self_irrelevant:
  "\<exists>self1 self2 task' sl n out.
      retrying N w cb (\<lambda>k. execute_research_body (env k)) k (self, task)
        = ((self1, task'), sl, n, out) \<and>
      retrying N w cb (\<lambda>k. execute_research_body (env k)) k (other, task)
        = ((self2, task'), sl, n, out)"
proof (induction "N - k" arbitrary: k self other task)
  case 0
  then have stop: "stop_after_attempt N k" by (simp add: stop_after_attempt_def)
  show ?case
  proof (cases "response (env k)")
    case (Inl e)
    show ?thesis
      by (subst (1 2) retrying.simps) (simp add: body_raise [OF Inl] stop)
  next
    case (Inr out)
    show ?thesis
      by (subst (1 2) retrying.simps) (simp add: body_return [OF Inr])
  qed
next
  case (Suc d)
  then have go: "\<not> stop_after_attempt N k" and d: "d = N - Suc k"
    by (simp_all add: stop_after_attempt_def)
  show ?case
  proof (cases "response (env k)")
    case (Inl e)
    let ?task1 = "task\<lparr>start_time := Some (t_start (env k)), status := ''failed'',
            error := Some (exn_text e), end_time := Some (t_end (env k))\<rparr>"
    from Suc.hyps(1) [OF d, of "self\<lparr>failed_count := failed_count self + 1\<rparr>" ?task1
        "other\<lparr>failed_count := failed_count other + 1\<rparr>"]
    obtain self1 self2 task' sl n out where
      "retrying N w cb (\<lambda>k. execute_research_body (env k)) (Suc k)
         (self\<lparr>failed_count := failed_count self + 1\<rparr>, ?task1) = ((self1, task'), sl, n, out)"
      "retrying N w cb (\<lambda>k. execute_research_body (env k)) (Suc k)
         (other\<lparr>failed_count := failed_count other + 1\<rparr>, ?task1) = ((self2, task'), sl, n, out)"
      by blast
    then show ?thesis
      using go by (subst (1 2) retrying.simps) (simp add: body_raise [OF Inl])
  next
    case (Inr out)
    show ?thesis
      by (subst (1 2) retrying.simps) (simp add: body_return [OF Inr])
  qed
qed

lemma task_after_self_irrelevant:
  "task_after env self task = task_after env other task"
proof -
  from retrying_self_irrelevant [of 10 "wait_exponential 1 1 15" retry_error_callback env 1 self task other]
  show ?thesis
    by (auto simp: task_after_def execute_research_def)
qed

lemma task_after_settled:
  "\<exists>out. settled task (task_after env self task) out"
proof -
  from execute_research_settled [of env self task]
  show ?thesis by (auto simp: task_after_def)
qed

lemma task_after_id [simp]: "task_id (task_after env self task) = task_id task"
  using task_after_settled [of task env self] by (auto simp: settled_def)

text \<open>
  What \<^verbatim>\<open>process_tasks\<close> appends for a finished future is always the task object:
  the returned task on success, and the task of the handler when the call raised, which
  it does when the attempts are used up.
\<close>

lemma collected_is_task_after:
  assumes "execute_research env (self, task) = ((self1, task1), sl, n, out)"
  shows "(case out of Inr r \<Rightarrow> r | Inl e \<Rightarrow> Some task1) = Some (task_after env self task)"
proof -
  from execute_research_settled [of env self task] assms
  have "settled task task1 out" by auto
  moreover from assms have "task_after env self task = task1"
    by (simp add: task_after_def)
  ultimately show ?thesis
    by (auto simp: settled_def split: sum.splits)
qed

lemma collect_results_eq:
  "snd (collect_results envs self futures)
     = map (\<lambda>(i, task). Some (task_after (envs i) r task)) futures"
proof (induction futures arbitrary: self)
  case Nil
  show ?case by simp
next
  case (Cons f futures)
  obtain i task where f: "f = (i, task)" by (cases f)
  obtain self1 task1 sl n out where
    e: "execute_research (envs i) (self, task) = ((self1, task1), sl, n, out)"
    by (metis prod.exhaust)
  have "snd (collect_results envs self (f # futures))
          = (case out of Inr r \<Rightarrow> r | Inl e \<Rightarrow> Some task1) # snd (collect_results envs self1 futures)"
    by (simp add: f e split: prod.splits)
  also have "\<dots> = Some (task_after (envs i) self task) # snd (collect_results envs self1 futures)"
    by (simp only: collected_is_task_after [OF e])
  also have "\<dots> = Some (task_after (envs i) r task)
                   # map (\<lambda>(i, task). Some (task_after (envs i) r task)) futures"
    by (simp only: Cons.IH task_after_self_irrelevant [of "envs i" self task r])
  finally show ?case by (simp add: f)
qed

text \<open>Every future is yielded once, whatever the scheduler does.\<close>

lemma as_completed_mset: "mset (as_completed sched step fs) = mset fs"
proof (induction sched step fs rule: as_completed.induct)
  case (1 sched step fs)
  show ?case
  proof (cases "fs = []")
    case True
    then show ?thesis by (subst as_completed.simps) simp
  next
    case False
    let ?j = "sched step mod length fs"
    from False have j: "?j < length fs" by simp
    have "mset (as_completed sched step fs)
            = {#fs ! ?j#} + mset (take ?j fs @ drop (Suc ?j) fs)"
      using False 1 [OF False refl] by (subst as_completed.simps) (simp add: Let_def)
    also have "\<dots> = mset (take ?j fs @ fs ! ?j # drop (Suc ?j) fs)" by simp
    also have "\<dots> = mset fs" by (simp only: id_take_nth_drop [OF j, symmetric])
    finally show ?thesis .
  qed
qed

lemma process_tasks_eq:
  "snd (process_tasks self tasks envs sched)
     = map (\<lambda>(i, task). Some (task_after (envs i) self task))
         (as_completed sched 0 (zip [0..<length tasks] tasks))"
  by (simp add: process_tasks_def collect_results_eq)

section \<open>Merging with the previous result file\<close>

lemma rec_id_task_dict [simp]: "rec_id (task_dict t) = JStr (task_id t)"
  by (simp add: rec_id_def dict_get_def task_dict_def)

lemma map_filter_Some: "List.map_filter (\<lambda>t. t) (map (\<lambda>x. Some (f x)) xs) = map f xs"
  by (induction xs) (simp_all add: List.map_filter_simps)

lemma new_records_eq:
  "new_records researcher pending envs sched
     = map (\<lambda>(i, task). task_dict (task_after (envs i) researcher task))
         (as_completed sched 0 (zip [0..<length pending] pending))"
proof -
  have "(\<lambda>(i, task). Some (task_after (envs i) researcher task))
          = (\<lambda>x. Some ((\<lambda>(i, task). task_after (envs i) researcher task) x))"
    by auto
  then show ?thesis
    by (simp add: new_records_def process_tasks_eq map_filter_Some split_def)
qed

lemma as_completed_set: "set (as_completed sched step fs) = set fs"
  using as_completed_mset [of sched step fs] by (metis set_mset_mset)

text \<open>One new record for each pending task.\<close>

lemma new_records_mset:
  "mset (new_records researcher pending envs sched)
     = mset (map (\<lambda>i. task_dict (task_after (envs i) researcher (pending ! i))) [0..<length pending])"
proof -
  have "mset (new_records researcher pending envs sched)
          = image_mset (\<lambda>(i, task). task_dict (task_after (envs i) researcher task))
              (mset (zip [0..<length pending] pending))"
    by (simp add: new_records_eq as_completed_mset)
  also have "zip [0..<length pending] pending = map (\<lambda>i. (i, pending ! i)) [0..<length pending]"
    by (rule nth_equalityI) simp_all
  finally show ?thesis by (simp add: image_mset.compositionality comp_def)
qed

lemma new_records_ids:
  "set (map rec_id (new_records researcher pending envs sched)) = set (map JStr (map task_id pending))"
proof -
  have "set (map rec_id (new_records researcher pending envs sched))
          = (\<lambda>(i, task). JStr (task_id task)) ` set (zip [0..<length pending] pending)"
    by (simp add: new_records_eq as_completed_set image_image split_def)
  also have "\<dots> = (\<lambda>task. JStr (task_id task)) ` snd ` set (zip [0..<length pending] pending)"
    by (simp add: image_image split_def)
  also have "snd ` set (zip [0..<length pending] pending) = set pending"
    by (metis length_upt map_snd_zip minus_nat.diff_0 set_map)
  finally show ?thesis by (simp add: image_image)
qed

lemma remove_pending_filter:
  "list_all (\<lambda>r. map_of r ''id'' \<noteq> None) rs \<Longrightarrow>
   remove_pending ids rs = Inr (filter (\<lambda>r. rec_id r \<notin> set (map JStr ids)) rs)"
  by (induction rs) (auto simp: bnd_def getitem_def rec_id_def dict_get_def)

lemma main_results_merge:
  assumes "pending \<noteq> []" and "list_all (\<lambda>r. map_of r ''id'' \<noteq> None) previous"
  shows "main_results researcher (Records previous) pending envs sched
           = Inr (filter (\<lambda>r. rec_id r \<notin> set (map rec_id (new_records researcher pending envs sched)))
                    previous
                  @ new_records researcher pending envs sched)"
proof -
  have "remove_pending (map task_id pending) previous
          = Inr (filter (\<lambda>r. rec_id r \<notin> set (map JStr (map task_id pending))) previous)"
    by (rule remove_pending_filter [OF assms(2)])
  then have "remove_pending (map task_id pending) previous
          = Inr (filter (\<lambda>r. rec_id r \<notin> set (map rec_id (new_records researcher pending envs sched)))
                   previous)"
    by (simp only: new_records_ids)
  then show ?thesis
    using assms(1)
    by (simp add: main_results_def merge_results_def bnd_def new_records_def [symmetric])
qed

lemma main_results_first_run:
  "pending \<noteq> [] \<Longrightarrow>
   main_results researcher NoFile pending envs sched = Inr (new_records researcher pending envs sched)"
  by (simp add: main_results_def merge_results_def new_records_def)

text \<open>
  Claim C4, amended. For every previous result sequence whose records have an id, and
  every non-empty list of pending tasks, the merged output is the previous records whose
  id is not the id of a new record, unchanged and in their original order, followed by
  all the new records in completion order, one for each pending task. So the new record
  wins, and it stands at the end, not in the place of the record it replaces. With no
  previous file the output is the new records.
\<close>

theorem C4_merge_drops_then_appends:
  assumes "pending \<noteq> []" and "list_all (\<lambda>r. map_of r ''id'' \<noteq> None) previous"
  shows "main_results researcher (Records previous) pending envs sched
           = Inr (filter (\<lambda>r. rec_id r \<notin> set (map rec_id (new_records researcher pending envs sched)))
                    previous
                  @ new_records researcher pending envs sched)
       \<and> main_results researcher NoFile pending envs sched
           = Inr (new_records researcher pending envs sched)
       \<and> mset (new_records researcher pending envs sched)
           = mset (map (\<lambda>i. task_dict (task_after (envs i) researcher (pending ! i)))
                     [0..<length pending])"
  using main_results_merge [OF assms] main_results_first_run [OF assms(1)] new_records_mset
  by simp

theorem C4_merge_drops_then_appends_witness:
  "[new_task ''a'' ''p''] \<noteq> [] \<and>
   list_all (\<lambda>r. map_of r ''id'' \<noteq> None) [rec_a_failed, rec_b_done] \<and>
   main_results (init_researcher 3 10 1) (Records [rec_a_failed, rec_b_done])
       [new_task ''a'' ''p''] (\<lambda>i. down_once) (\<lambda>step. 0)
     = Inr (filter (\<lambda>r. rec_id r \<notin> set (map rec_id
                (new_records (init_researcher 3 10 1) [new_task ''a'' ''p''] (\<lambda>i. down_once)
                   (\<lambda>step. 0))))
              [rec_a_failed, rec_b_done]
            @ new_records (init_researcher 3 10 1) [new_task ''a'' ''p''] (\<lambda>i. down_once)
                (\<lambda>step. 0)) \<and>
   filter (\<lambda>r. rec_id r \<notin> set (map rec_id
                (new_records (init_researcher 3 10 1) [new_task ''a'' ''p''] (\<lambda>i. down_once)
                   (\<lambda>step. 0))))
              [rec_a_failed, rec_b_done]
     = [rec_b_done]"
proof -
  have h1: "[new_task ''a'' ''p''] \<noteq> []" by simp
  have h2: "list_all (\<lambda>r. map_of r ''id'' \<noteq> None) [rec_a_failed, rec_b_done]"
    by (simp add: rec_a_failed_def rec_b_done_def)
  have v: "filter (\<lambda>r. rec_id r \<notin> set (map rec_id
                (new_records (init_researcher 3 10 1) [new_task ''a'' ''p''] (\<lambda>i. down_once)
                   (\<lambda>step. 0))))
              [rec_a_failed, rec_b_done]
            = [rec_b_done]"
    by code_simp
  from C4_merge_drops_then_appends [OF h1 h2, of "init_researcher 3 10 1" "\<lambda>i. down_once"
      "\<lambda>step. 0"]
  have "main_results (init_researcher 3 10 1) (Records [rec_a_failed, rec_b_done])
       [new_task ''a'' ''p''] (\<lambda>i. down_once) (\<lambda>step. 0)
     = Inr (filter (\<lambda>r. rec_id r \<notin> set (map rec_id
                (new_records (init_researcher 3 10 1) [new_task ''a'' ''p''] (\<lambda>i. down_once)
                   (\<lambda>step. 0))))
              [rec_a_failed, rec_b_done]
            @ new_records (init_researcher 3 10 1) [new_task ''a'' ''p''] (\<lambda>i. down_once)
                (\<lambda>step. 0))"
    by (rule conjunct1)
  with h1 h2 v show ?thesis by blast
qed

text \<open>
  The claim as stated fails where a previous record is replaced: with the previous
  records of a (failed) and b (completed) and a re-run of a, the code writes b first and
  the new record of a last, while the order of the claim has the new record of a in the
  first place.
\<close>

theorem C4_replaced_record_moves_to_end:
  "main_results (init_researcher 3 10 1) (Records [rec_a_failed, rec_b_done])
       [new_task ''a'' ''p''] (\<lambda>i. down_once) (\<lambda>step. 0)
     = Inr [rec_b_done,
            [(''id'', JStr ''a''), (''prompt'', JStr ''p''), (''status'', JStr ''completed''),
             (''result'', JStr ''answer''), (''error'', JStr ''APIError: down''),
             (''start_time'', JFloat 200), (''end_time'', JFloat 205), (''duration'', JFloat 5),
             (''retry_count'', JInt 0)]] \<and>
   merge_spec [rec_a_failed, rec_b_done]
       (new_records (init_researcher 3 10 1) [new_task ''a'' ''p''] (\<lambda>i. down_once) (\<lambda>step. 0))
     = [[(''id'', JStr ''a''), (''prompt'', JStr ''p''), (''status'', JStr ''completed''),
         (''result'', JStr ''answer''), (''error'', JStr ''APIError: down''),
         (''start_time'', JFloat 200), (''end_time'', JFloat 205), (''duration'', JFloat 5),
         (''retry_count'', JInt 0)],
        rec_b_done] \<and>
   main_results (init_researcher 3 10 1) (Records [rec_a_failed, rec_b_done])
       [new_task ''a'' ''p''] (\<lambda>i. down_once) (\<lambda>step. 0)
     \<noteq> Inr (merge_spec [rec_a_failed, rec_b_done]
              (new_records (init_researcher 3 10 1) [new_task ''a'' ''p''] (\<lambda>i. down_once)
                 (\<lambda>step. 0)))"
  by code_simp

text \<open>
  With no pending task \<^verbatim>\<open>main\<close> takes the other branch and hands the empty list to
  \<^verbatim>\<open>save_final_results\<close>, whatever the previous file holds.
\<close>

lemma no_pending_task_empties_the_file:
  "main_file researcher (Records previous) [] envs sched = Inr []"
  by (simp add: main_file_def main_results_def bnd_def)

section \<open>Every submitted task reaches the result file\<close>

text \<open>
  What \<^verbatim>\<open>save_final_results\<close> writes for a dict that \<^verbatim>\<open>main\<close> built from a
  task: the dict without its last pair, which is \<^verbatim>\<open>retry_count\<close>.
\<close>

lemma final_entry_task_dict: "final_entry (task_dict t) = Inr (butlast (task_dict t))"
  by (cases "start_time t"; cases "end_time t")
     (simp_all add: final_entry_def task_dict_def getitem_def bnd_def opt_float_def)

lemma well_formed_final_entry:
  assumes "well_formed r"
  shows "\<exists>e. final_entry r = Inr e"
proof -
  from assms obtain v1 v2 v3 v4 v5 v6 v7 where
    "map_of r ''id'' = Some v1" "map_of r ''prompt'' = Some v2" "map_of r ''status'' = Some v3"
    "map_of r ''result'' = Some v4" "map_of r ''error'' = Some v5"
    "map_of r ''start_time'' = Some v6" "map_of r ''end_time'' = Some v7"
    and "is_time v6" "is_time v7"
    by (auto simp: well_formed_def dict_get_def)
  then show ?thesis
    by (cases v6; cases v7) (simp_all add: final_entry_def getitem_def bnd_def is_time_def)
qed

lemma save_final_results_append:
  "save_final_results (xs @ ys)
     = bnd (save_final_results xs) (\<lambda>a. bnd (save_final_results ys) (\<lambda>b. Inr (a @ b)))"
  by (induction xs) (auto simp: bnd_def split: sum.splits)

lemma save_final_results_well_formed:
  "list_all well_formed rs \<Longrightarrow> \<exists>es. save_final_results rs = Inr es"
proof (induction rs)
  case Nil
  show ?case by simp
next
  case (Cons r rs)
  then obtain es where "save_final_results rs = Inr es" by auto
  moreover from Cons.prems obtain e where "final_entry r = Inr e"
    using well_formed_final_entry by auto
  ultimately show ?case by (simp add: bnd_def)
qed

lemma save_final_results_new:
  "save_final_results (map task_dict ts) = Inr (map (\<lambda>t. butlast (task_dict t)) ts)"
proof (induction ts)
  case Nil
  show ?case by simp
next
  case (Cons t ts)
  have "task_dict t \<noteq> []" by (simp add: task_dict_def)
  with Cons show ?case by (simp add: final_entry_task_dict bnd_def)
qed

lemma new_records_as_map:
  "\<exists>ts. new_records researcher pending envs sched = map task_dict ts
      \<and> set ts = {task_after (envs i) researcher (pending ! i) | i. i < length pending}"
proof -
  let ?fs = "as_completed sched 0 (zip [0..<length pending] pending)"
  let ?ts = "map (\<lambda>(i, task). task_after (envs i) researcher task) ?fs"
  have "new_records researcher pending envs sched = map task_dict ?ts"
    by (simp add: new_records_eq split_def)
  moreover have "set ?ts = {task_after (envs i) researcher (pending ! i) | i. i < length pending}"
  proof -
    have z: "zip [0..<length pending] pending = map (\<lambda>i. (i, pending ! i)) [0..<length pending]"
      by (rule nth_equalityI) simp_all
    have a: "set ?fs = set (zip [0..<length pending] pending)" by (rule as_completed_set)
    have b: "set (zip [0..<length pending] pending) = (\<lambda>i. (i, pending ! i)) ` {0..<length pending}"
      by (simp add: z)
    have "set ?fs = (\<lambda>i. (i, pending ! i)) ` {0..<length pending}"
      by (rule trans [OF a b])
    then show ?thesis by (auto simp: image_iff)
  qed
  ultimately show ?thesis by blast
qed

lemma main_file_written:
  assumes "usable output_file"
  shows "\<exists>file. main_file researcher output_file pending envs sched = Inr file \<and>
     (\<forall>i<length pending.
        butlast (task_dict (task_after (envs i) researcher (pending ! i))) \<in> set file)"
proof (cases "pending = []")
  case True
  then show ?thesis by (simp add: main_file_def main_results_def bnd_def)
next
  case False
  obtain ts where new: "new_records researcher pending envs sched = map task_dict ts"
    and ts: "set ts = {task_after (envs i) researcher (pending ! i) | i. i < length pending}"
    using new_records_as_map by blast
  have in_new: "\<forall>i<length pending.
        butlast (task_dict (task_after (envs i) researcher (pending ! i)))
          \<in> set (map (\<lambda>t. butlast (task_dict t)) ts)"
    using ts by auto
  show ?thesis
  proof (cases output_file)
    case NoFile
    have "main_file researcher NoFile pending envs sched = Inr (map (\<lambda>t. butlast (task_dict t)) ts)"
      by (simp add: main_file_def main_results_first_run [OF False] bnd_def new
          save_final_results_new)
    with in_new NoFile show ?thesis by blast
  next
    case NotJson
    with assms show ?thesis by simp
  next
    case (Records previous)
    with assms have wf: "list_all well_formed previous" by simp
    then have ids: "list_all (\<lambda>r. map_of r ''id'' \<noteq> None) previous"
      by (simp add: list_all_iff well_formed_def)
    define kept where
      "kept = filter (\<lambda>r. rec_id r \<notin> set (map rec_id (new_records researcher pending envs sched)))
                previous"
    from wf have "list_all well_formed kept" by (simp add: list_all_iff kept_def)
    then obtain es where es: "save_final_results kept = Inr es"
      using save_final_results_well_formed by blast
    have "main_results researcher (Records previous) pending envs sched
            = Inr (kept @ map task_dict ts)"
      unfolding kept_def new [symmetric] by (rule main_results_merge [OF False ids])
    then have "main_file researcher (Records previous) pending envs sched
            = Inr (es @ map (\<lambda>t. butlast (task_dict t)) ts)"
      by (simp add: main_file_def bnd_def save_final_results_append es save_final_results_new)
    with in_new Records show ?thesis by auto
  qed
qed

lemma final_fields:
  "map_of (butlast (task_dict t)) ''id'' = Some (JStr (task_id t))"
  "map_of (butlast (task_dict t)) ''status'' = Some (JStr (status t))"
  "map_of (butlast (task_dict t)) ''error'' = Some (opt_str (error t))"
  by (simp_all add: task_dict_def)

text \<open>
  When the earlier result file is absent or a list of records that
  \<^verbatim>\<open>save_final_results\<close> can read, process_tasks followed by the merge and the write of
  main gives a result file with a record for every pending task, under every behaviour of
  the remote call and every order of completion. A task whose remote call raised on each
  of its 10 attempts is in the file with status failed and the text of the last
  exception. (The call of the callback raises, so such a task reaches
  \<^verbatim>\<open>process_tasks\<close> through the handler that appends the task object.)
\<close>

lemma readable_result_file_records_every_task:
  assumes "usable output_file"
  shows "\<exists>file. main_file researcher output_file pending envs sched = Inr file \<and>
     (\<forall>i<length pending. \<exists>entry\<in>set file.
         map_of entry ''id'' = Some (JStr (task_id (pending ! i))) \<and>
         ((\<forall>k. 1 \<le> k \<and> k \<le> 10 \<longrightarrow> isl (response (envs i k))) \<longrightarrow>
            map_of entry ''status'' = Some (JStr ''failed'') \<and>
            map_of entry ''error'' = Some (JStr (exn_text (projl (response (envs i 10)))))))"
proof -
  from main_file_written [OF assms, of researcher pending envs sched]
  obtain written where w: "main_file researcher output_file pending envs sched = Inr written"
    and entries: "\<forall>i<length pending.
        butlast (task_dict (task_after (envs i) researcher (pending ! i))) \<in> set written"
    by blast
  have "\<exists>entry\<in>set written.
         map_of entry ''id'' = Some (JStr (task_id (pending ! i))) \<and>
         ((\<forall>k. 1 \<le> k \<and> k \<le> 10 \<longrightarrow> isl (response (envs i k))) \<longrightarrow>
            map_of entry ''status'' = Some (JStr ''failed'') \<and>
            map_of entry ''error'' = Some (JStr (exn_text (projl (response (envs i 10))))))"
    if i: "i < length pending" for i
  proof -
    let ?t = "task_after (envs i) researcher (pending ! i)"
    from entries i have "butlast (task_dict ?t) \<in> set written" by simp
    moreover have "map_of (butlast (task_dict ?t)) ''id'' = Some (JStr (task_id (pending ! i)))"
      by (simp add: final_fields)
    moreover have "map_of (butlast (task_dict ?t)) ''status'' = Some (JStr ''failed'') \<and>
        map_of (butlast (task_dict ?t)) ''error''
          = Some (JStr (exn_text (projl (response (envs i 10)))))"
      if "\<forall>k. 1 \<le> k \<and> k \<le> 10 \<longrightarrow> isl (response (envs i k))"
      using exhaustion_is_ten_attempts [of "envs i" researcher "pending ! i"] that
      by (simp add: final_fields opt_str_def)
    ultimately show ?thesis by blast
  qed
  with w show ?thesis by blast
qed

lemma readable_result_file_example:
  "usable (Records [rec_a_failed, rec_b_done]) \<and>
   (\<exists>file. main_file (init_researcher 3 10 1) (Records [rec_a_failed, rec_b_done])
              [new_task ''a'' ''p'', new_task ''c'' ''r'']
              (\<lambda>i. if i = 0 then always_down else down_once) (\<lambda>step. 1) = Inr file \<and>
      (\<exists>entry\<in>set file.
         map_of entry ''id'' = Some (JStr ''a'') \<and>
         map_of entry ''status'' = Some (JStr ''failed'') \<and>
         map_of entry ''error'' = Some (JStr ''APIError: down'')))"
proof -
  have u: "usable (Records [rec_a_failed, rec_b_done])"
    by (simp add: well_formed_def rec_a_failed_def rec_b_done_def dict_get_def is_time_def)
  from readable_result_file_records_every_task [OF u, of "init_researcher 3 10 1"
      "[new_task ''a'' ''p'', new_task ''c'' ''r'']"
      "\<lambda>i. if i = 0 then always_down else down_once" "\<lambda>step. 1"]
  obtain written where
    w: "main_file (init_researcher 3 10 1) (Records [rec_a_failed, rec_b_done])
              [new_task ''a'' ''p'', new_task ''c'' ''r'']
              (\<lambda>i. if i = 0 then always_down else down_once) (\<lambda>step. 1) = Inr written"
    and all: "\<forall>i<length [new_task ''a'' ''p'', new_task ''c'' ''r'']. \<exists>entry\<in>set written.
         map_of entry ''id''
           = Some (JStr (task_id ([new_task ''a'' ''p'', new_task ''c'' ''r''] ! i))) \<and>
         ((\<forall>k. 1 \<le> k \<and> k \<le> 10 \<longrightarrow>
              isl (response ((if i = 0 then always_down else down_once) k))) \<longrightarrow>
            map_of entry ''status'' = Some (JStr ''failed'') \<and>
            map_of entry ''error''
              = Some (JStr (exn_text (projl (response
                   ((if i = 0 then always_down else down_once) 10))))))"
    by blast
  from spec [OF all, of 0] have "\<exists>entry\<in>set written.
         map_of entry ''id'' = Some (JStr ''a'') \<and>
         map_of entry ''status'' = Some (JStr ''failed'') \<and>
         map_of entry ''error'' = Some (JStr ''APIError: down'')"
    by (simp add: always_down_def new_task_def)
  with u w show ?thesis by blast
qed

text \<open>The file of that run, with the record of b kept from the earlier run.\<close>

lemma file_of_a_run_with_a_failed_task:
  "main_file (init_researcher 3 10 1) (Records [rec_a_failed, rec_b_done])
              [new_task ''a'' ''p'', new_task ''c'' ''r'']
              (\<lambda>i. if i = 0 then always_down else down_once) (\<lambda>step. 1)
    = Inr [rec_b_done,
           [(''id'', JStr ''c''), (''prompt'', JStr ''r''), (''status'', JStr ''completed''),
            (''result'', JStr ''answer''), (''error'', JStr ''APIError: down''),
            (''start_time'', JFloat 200), (''end_time'', JFloat 205), (''duration'', JFloat 5)],
           [(''id'', JStr ''a''), (''prompt'', JStr ''p''), (''status'', JStr ''failed''),
            (''result'', JNull), (''error'', JStr ''APIError: down''),
            (''start_time'', JFloat 100), (''end_time'', JFloat 101), (''duration'', JFloat 1)]]"
  by code_simp

text \<open>
  The first read of \<^verbatim>\<open>main\<close> forgives a result file that cannot be read: every task
  is then pending.
\<close>

lemma unreadable_result_file_leaves_every_task_pending:
  "pending_tasks_of NotJson tasks = tasks"
  by (simp add: pending_tasks_of_def completed_task_ids_def)

text \<open>
  Claim C1. The claim: for every list of submitted tasks, process_tasks followed by the
  merge in main gives a record for every submitted task, and every failed task is in the
  final result file with its error text. The code, with the one task a whose remote call
  raises on every attempt and a result file that exists and does not hold JSON: the
  first read of main, inside try and except, logs a warning and leaves a pending;
  process_tasks runs a and returns it with status failed and its error text; the second
  read, in the merge, has no handler of its own, so main raises JSONDecodeError and
  \<^verbatim>\<open>save_final_results\<close> is never called: nothing is written and the record of a is
  lost. The same happens, with KeyError, when the file holds a record without an id:
  \<^verbatim>\<open>result['id']\<close> raises under the handler of the first read and \<^verbatim>\<open>r['id']\<close>
  raises outside one in the merge.
\<close>

theorem C1_unreadable_result_file_loses_every_record:
  "pending_tasks_of NotJson [new_task ''a'' ''p''] = [new_task ''a'' ''p''] \<and>
   map (map_option (\<lambda>t. (task_id t, status t, error t)))
     (snd (process_tasks (init_researcher 3 10 1) [new_task ''a'' ''p'']
             (\<lambda>i. always_down) (\<lambda>step. 0)))
     = [Some (''a'', ''failed'', Some ''APIError: down'')] \<and>
   main (init_researcher 3 10 1) NotJson [new_task ''a'' ''p''] (\<lambda>i. always_down) (\<lambda>step. 0)
     = Inl (Exn ''JSONDecodeError'' ''Expecting value'') \<and>
   pending_tasks_of (Records [[(''status'', JStr ''failed'')]]) [new_task ''a'' ''p'']
     = [new_task ''a'' ''p''] \<and>
   main (init_researcher 3 10 1) (Records [[(''status'', JStr ''failed'')]])
     [new_task ''a'' ''p''] (\<lambda>i. always_down) (\<lambda>step. 0)
     = Inl (Exn ''KeyError'' ''id'')"
  by code_simp

section \<open>The directory check of browseruse.py and owl.py\<close>

text \<open>Both loops are the loop \<open>skip_loop\<close>.\<close>

lemma browseruse_loop_skip_loop:
  "browseruse_loop env run fs tasks
     = skip_loop (\<lambda>f. resolve env (result_dir f)) (\<lambda>f. mkdir_error env (result_dir f))
         (browseruse_act env run) browseruse_call fs tasks"
  by (induction tasks arbitrary: fs)
     (auto simp: path_exists_def makedirs_def browseruse_call_def browseruse_act_def Let_def
           split: option.splits prod.splits)

lemma owl_loop_skip_loop:
  "owl_loop env workforce fs tasks
     = skip_loop (\<lambda>f. resolve env (workforce_result_dir f))
         (\<lambda>f. mkdir_error env (workforce_result_dir f))
         (owl_act env workforce) owl_call fs tasks"
  by (induction tasks arbitrary: fs)
     (auto simp: path_exists_def makedirs_def owl_call_def owl_act_def execute_agent_def Let_def
           split: option.splits prod.splits)

lemma browseruse_main_skip_loop:
  "browseruse_main env run fs tasks
     = skip_loop (\<lambda>f. resolve env (result_dir f)) (\<lambda>f. mkdir_error env (result_dir f))
         (browseruse_act env run) browseruse_call fs tasks"
  by (cases tasks) (simp_all add: browseruse_main_def browseruse_loop_skip_loop)

lemma owl_main_skip_loop:
  "owl_main env workforce fs tasks
     = skip_loop (\<lambda>f. resolve env (workforce_result_dir f))
         (\<lambda>f. mkdir_error env (workforce_result_dir f))
         (owl_act env workforce) owl_call fs tasks"
  by (cases tasks) (simp_all add: owl_main_def owl_loop_skip_loop)

text \<open>
  Every call the loop makes is the call for a task of the list whose directory did not
  exist when the loop started.
\<close>

lemma skip_loop_calls:
  "c \<in> set (fst (skip_loop node prep act mk fs tasks)) \<Longrightarrow>
   \<exists>(f, t) \<in> set tasks. c = mk f t \<and> node f \<notin> set fs"
proof (induction tasks arbitrary: fs)
  case Nil
  then show ?case by simp
next
  case (Cons ft rest)
  obtain f t where ft: "ft = (f, t)" by (cases ft)
  show ?case
  proof (cases "node f \<in> set fs")
    case True
    with Cons.prems ft have "c \<in> set (fst (skip_loop node prep act mk fs rest))" by simp
    from Cons.IH [OF this] show ?thesis by auto
  next
    case False
    show ?thesis
    proof (cases "prep f")
      case (Some e)
      with Cons.prems ft False show ?thesis by simp
    next
      case None
      obtain made r where a: "act f t = (made, r)" by (cases "act f t")
      show ?thesis
      proof (cases r)
        case (Some e)
        with Cons.prems ft False None a show ?thesis by simp
      next
        case r: None
        with Cons.prems ft False None a
        have "c = mk f t \<or> c \<in> set (fst (skip_loop node prep act mk (made @ fs) rest))"
          by (auto split: prod.splits)
        then show ?thesis
        proof
          assume "c = mk f t"
          with ft False show ?thesis by simp
        next
          assume "c \<in> set (fst (skip_loop node prep act mk (made @ fs) rest))"
          from Cons.IH [OF this] show ?thesis by auto
        qed
      qed
    qed
  qed
qed



lemma result_md_request_nonempty: "t @ result_md_request \<noteq> t"
  by (simp add: result_md_request_def)

lemma shard_nth:
  "shard tasks = map (\<lambda>i. tasks ! i) (filter (\<lambda>i. i mod N_WORKERS = WORKER_ID) [0..<length tasks])"
proof -
  have "enumerate 0 tasks = map (\<lambda>i. (i, tasks ! i)) [0..<length tasks]"
    by (rule nth_equalityI) (simp_all add: nth_enumerate_eq)
  then show ?thesis
    by (simp add: shard_def filter_map comp_def)
qed

text \<open>
  In the file system of the examples, the folder names a and a/ name one directory:
  once the task a has run, the task a/ is skipped.
\<close>

lemma second_name_of_a_directory_is_skipped:
  "resolve plain_fs (result_dir ''a/'') = resolve plain_fs (result_dir ''a'') \<and>
   fst (browseruse_main plain_fs run_ok [] [(''a'', ''do a''), (''a/'', ''again'')])
     = [browseruse_call ''a'' ''do a''] \<and>
   fst (owl_main plain_fs run_ok [] [(''a'', ''do a''), (''a/'', ''again'')])
     = [owl_call ''a'' ''do a'']"
  by code_simp




text \<open>
  Claim C10. In browseruse.py every call of the collaborator is made for a task of the
  list, and the prompt it is given is the task's prompt followed by the request to save
  result.md, a line feed and 63 more characters, so it is never the task's prompt
  itself.
\<close>

theorem C10_prompt_carries_suffix:
  "\<forall>c \<in> set (fst (browseruse_main env run fs tasks)).
     \<exists>(f, t) \<in> set tasks. c = browseruse_call f t \<and>
        agent_task c = t @ result_md_request \<and> agent_task c \<noteq> t"
proof
  fix c assume "c \<in> set (fst (browseruse_main env run fs tasks))"
  from skip_loop_calls [OF this [unfolded browseruse_main_skip_loop]]
  obtain f t where "(f, t) \<in> set tasks" and c: "c = browseruse_call f t" by auto
  moreover from c have "agent_task c = t @ result_md_request"
    by (simp add: browseruse_call_def)
  ultimately show "\<exists>(f, t) \<in> set tasks. c = browseruse_call f t \<and>
        agent_task c = t @ result_md_request \<and> agent_task c \<noteq> t"
    using result_md_request_nonempty [of t] by auto
qed

theorem C10_prompt_carries_suffix_witness:
  "fst (browseruse_main plain_fs run_ok [] [(''a'', ''do a'')]) = [browseruse_call ''a'' ''do a''] \<and>
   agent_task (browseruse_call ''a'' ''do a'') = ''do a'' @ result_md_request \<and>
   agent_task (browseruse_call ''a'' ''do a'') \<noteq> ''do a''"
proof -
  have calls: "fst (browseruse_main plain_fs run_ok [] [(''a'', ''do a'')])
                 = [browseruse_call ''a'' ''do a'']"
    by code_simp
  from C10_prompt_carries_suffix [of plain_fs run_ok "[]" "[(''a'', ''do a'')]"] calls
  have "agent_task (browseruse_call ''a'' ''do a'') = ''do a'' @ result_md_request \<and>
        agent_task (browseruse_call ''a'' ''do a'') \<noteq> ''do a''"
    by auto
  with calls show ?thesis by blast
qed

text \<open>
  Claim C9. In owl.py the loaded, filtered and sorted task list is cut down to the tasks
  whose zero-based index is 1 modulo 10; the reports of skipped entries are those of the
  loading alone, so nothing is reported for the tasks left out; and every call of the
  collaborator is made for a task of that share.
\<close>

theorem C9_only_the_share_is_run:
  "N_WORKERS = 10 \<and> WORKER_ID = 1 \<and>
   shard tasks = map (\<lambda>i. tasks ! i) (filter (\<lambda>i. i mod 10 = 1) [0..<length tasks]) \<and>
   (load_tasks raw_tasks = Inr (tasks, skipped)
      \<longrightarrow> load_tasks_owl raw_tasks = Inr (shard tasks, skipped)) \<and>
   (\<forall>c \<in> set (fst (owl_main env run fs (shard tasks))). \<exists>(f, t) \<in> set (shard tasks). c = owl_call f t)"
proof (intro conjI)
  show "N_WORKERS = 10" by (simp add: N_WORKERS_def)
  show "WORKER_ID = 1" by (simp add: WORKER_ID_def)
  show "shard tasks = map (\<lambda>i. tasks ! i) (filter (\<lambda>i. i mod 10 = 1) [0..<length tasks])"
    using shard_nth [of tasks] by (simp add: N_WORKERS_def WORKER_ID_def)
  show "load_tasks raw_tasks = Inr (tasks, skipped)
      \<longrightarrow> load_tasks_owl raw_tasks = Inr (shard tasks, skipped)"
    by (simp add: load_tasks_owl_def bnd_def)
  show "\<forall>c \<in> set (fst (owl_main env run fs (shard tasks))). \<exists>(f, t) \<in> set (shard tasks). c = owl_call f t"
  proof
    fix c assume "c \<in> set (fst (owl_main env run fs (shard tasks)))"
    from skip_loop_calls [OF this [unfolded owl_main_skip_loop]]
    show "\<exists>(f, t) \<in> set (shard tasks). c = owl_call f t" by auto
  qed
qed

theorem C9_only_the_share_is_run_witness:
  "load_tasks twelve_raw = Inr (twelve_tasks, []) \<and>
   load_tasks_owl twelve_raw = Inr ([(''t1'', ''do t1''), (''t11'', ''do t11'')], []) \<and>
   fst (owl_main plain_fs run_ok [] (shard twelve_tasks))
     = [owl_call ''t1'' ''do t1'', owl_call ''t11'' ''do t11'']"
proof -
  have l: "load_tasks twelve_raw = Inr (twelve_tasks, [])" by code_simp
  have s: "map (\<lambda>i. twelve_tasks ! i) (filter (\<lambda>i. i mod 10 = 1) [0..<length twelve_tasks])
             = [(''t1'', ''do t1''), (''t11'', ''do t11'')]"
    by code_simp
  from C9_only_the_share_is_run [of twelve_tasks twelve_raw "[]" plain_fs run_ok "[]"] l s
  have o: "load_tasks_owl twelve_raw = Inr ([(''t1'', ''do t1''), (''t11'', ''do t11'')], [])"
    and sh: "shard twelve_tasks = [(''t1'', ''do t1''), (''t11'', ''do t11'')]"
    by simp_all
  have "fst (owl_main plain_fs run_ok [] [(''t1'', ''do t1''), (''t11'', ''do t11'')])
     = [owl_call ''t1'' ''do t1'', owl_call ''t11'' ''do t11'']"
    by code_simp
  with sh have "fst (owl_main plain_fs run_ok [] (shard twelve_tasks))
     = [owl_call ''t1'' ''do t1'', owl_call ''t11'' ''do t11'']"
    by simp
  with l o show ?thesis by blast
qed

section \<open>The order of the natural keys\<close>

text \<open>
  The pieces of a name alternate, they make up the name, and so do the elements of its
  key when the key can be computed.
\<close>

lemma re_split_alt: "alt_pieces True (re_split name)"
proof (induction name rule: re_split.induct)
  case (1 name)
  let ?text = "takeWhile (\<lambda>c. \<not> decimal_char c) name"
  let ?rest = "dropWhile (\<lambda>c. \<not> decimal_char c) name"
  have t: "list_all (\<lambda>c. \<not> decimal_char c) ?text"
    by (simp add: list_all_iff) (metis set_takeWhileD)
  show ?case
  proof (cases "?rest = []")
    case True
    with t show ?thesis by (subst re_split.simps) (simp add: Let_def)
  next
    case False
    then have "decimal_char (hd ?rest)"
      using hd_dropWhile [of "\<lambda>c. \<not> decimal_char c" name] by simp
    with False have ne: "takeWhile decimal_char ?rest \<noteq> []"
      by (cases ?rest) auto
    have d: "list_all decimal_char (takeWhile decimal_char ?rest)"
      by (simp add: list_all_iff) (metis set_takeWhileD)
    from 1 [OF refl refl False] have "alt_pieces True (re_split (dropWhile decimal_char ?rest))" .
    with False t ne d show ?thesis
      by (subst re_split.simps) (simp add: Let_def)
  qed
qed

lemma re_split_concat: "concat (re_split name) = name"
proof (induction name rule: re_split.induct)
  case (1 name)
  let ?rest = "dropWhile (\<lambda>c. \<not> decimal_char c) name"
  show ?case
  proof (cases "?rest = []")
    case True
    then have "takeWhile (\<lambda>c. \<not> decimal_char c) name = name"
      by (metis append_Nil2 takeWhile_dropWhile_id)
    with True show ?thesis by (subst re_split.simps) (simp add: Let_def)
  next
    case False
    from 1 [OF refl refl False]
    have "concat (re_split (dropWhile decimal_char ?rest)) = dropWhile decimal_char ?rest" .
    with False show ?thesis
      by (subst re_split.simps) (simp add: Let_def)
  qed
qed

text \<open>On strings \<open>str_lt\<close> is the order of the code points, letter by letter.\<close>

lemma str_lt_less: "str_lt a b \<longleftrightarrow> a < b"
proof (induction a b rule: str_lt.induct)
  case (4 a as b bs)
  then show ?case
    by (auto simp: code_point_def less_char_def)
qed simp_all

text \<open>
  Between two keys of the same shape \<open>key_lt\<close> never meets an int and a str, and it
  is the order of the encoded keys.
\<close>

lemma key_lt_less:
  "alt_key b x \<Longrightarrow> alt_key b y \<Longrightarrow> key_lt x y = Inr (map enc x < map enc y)"
proof (induction x y arbitrary: b rule: key_lt.induct)
  case (4 x xs y ys)
  show ?case
  proof (cases b)
    case True
    with 4 obtain s t where "x = KStr s" "y = KStr t" "alt_key False xs" "alt_key False ys"
      by (cases x; cases y) auto
    with 4(1) [of False] show ?thesis
      by (auto simp: str_lt_less)
  next
    case False
    with 4 obtain n m where "x = KInt n" "y = KInt m" "alt_key True xs" "alt_key True ys"
      by (cases x; cases y) auto
    with 4(1) [of True] show ?thesis
      by auto
  qed
qed simp_all

lemma key_part_text:
  "list_all (\<lambda>c. \<not> decimal_char c) p \<Longrightarrow> key_part p = Inr k \<Longrightarrow> \<exists>s. k = KStr s"
  by (cases p) (auto simp: key_part_def py_int_def bnd_def split: if_splits)

lemma key_part_digits:
  "p \<noteq> [] \<Longrightarrow> list_all decimal_char p \<Longrightarrow> \<exists>n. key_part p = Inr (KInt n)"
  by (auto simp: key_part_def py_int_def bnd_def isdigit_def isdigit_char_def list_all_iff)

lemma map_exn_alt:
  "alt_pieces b ps \<Longrightarrow> map_exn key_part ps = Inr k \<Longrightarrow> alt_key b k"
proof (induction ps arbitrary: b k)
  case Nil
  then show ?case by simp
next
  case (Cons p ps)
  from Cons.prems(2) obtain e k' where e: "key_part p = Inr e"
    and k': "map_exn key_part ps = Inr k'" and k: "k = e # k'"
    by (auto simp: bnd_def split: sum.splits)
  show ?case
  proof (cases b)
    case True
    with Cons.prems(1) have "list_all (\<lambda>c. \<not> decimal_char c) p" "alt_pieces False ps" by simp_all
    with key_part_text [OF _ e] Cons.IH [OF _ k'] True k show ?thesis by auto
  next
    case False
    with Cons.prems(1) have "p \<noteq> []" "list_all decimal_char p" "alt_pieces True ps" by simp_all
    with key_part_digits [of p] e Cons.IH [OF _ k'] False k show ?thesis by auto
  qed
qed

lemma natural_key_alt: "natural_key name = Inr k \<Longrightarrow> alt_key True k"
  unfolding natural_key_def by (rule map_exn_alt [OF re_split_alt])

text \<open>Two keys that \<open>natural_key\<close> computes can always be compared.\<close>

lemma natural_keys_compare:
  "natural_key a = Inr ka \<Longrightarrow> natural_key b = Inr kb \<Longrightarrow> key_lt ka kb = Inr (map enc ka < map enc kb)"
  by (rule key_lt_less [OF natural_key_alt natural_key_alt])

text \<open>On keyed lists of that shape the insertion sort of the model is \<open>sort_key\<close>.\<close>

lemma place_insort:
  assumes "alt_key True (fst x)" and "list_all (\<lambda>p. alt_key True (fst p)) ys"
  shows "place x ys = Inr (insort_key (\<lambda>p. map enc (fst p)) x ys)"
  using assms(2)
proof (induction ys)
  case Nil
  show ?case by simp
next
  case (Cons y ys)
  then have y: "alt_key True (fst y)" and ys: "list_all (\<lambda>p. alt_key True (fst p)) ys"
    by simp_all
  have lt: "key_lt (fst y) (fst x) = Inr (map enc (fst y) < map enc (fst x))"
    by (rule key_lt_less [OF y assms(1)])
  show ?case
  proof (cases "map enc (fst y) < map enc (fst x)")
    case True
    then have "\<not> map enc (fst x) \<le> map enc (fst y)" by (simp add: not_le)
    with True lt Cons.IH [OF ys] show ?thesis by (simp add: bnd_def)
  next
    case False
    then have "map enc (fst x) \<le> map enc (fst y)" by (simp add: not_less)
    with False lt show ?thesis by (simp add: bnd_def)
  qed
qed

lemma insort_alt:
  "alt_key True (fst x) \<Longrightarrow> list_all (\<lambda>p. alt_key True (fst p)) ys \<Longrightarrow>
   list_all (\<lambda>p. alt_key True (fst p)) (insort_key f x ys)"
  by (simp add: list_all_iff set_insort_key)

lemma sort_keyed_sort:
  "list_all (\<lambda>p. alt_key True (fst p)) xs \<Longrightarrow>
   sort_keyed xs = Inr (sort_key (\<lambda>p. map enc (fst p)) xs)"
proof (induction xs)
  case Nil
  show ?case by simp
next
  case (Cons x xs)
  then have x: "alt_key True (fst x)" and xs: "list_all (\<lambda>p. alt_key True (fst p)) xs"
    by simp_all
  have "list_all (\<lambda>p. alt_key True (fst p)) (sort_key (\<lambda>p. map enc (fst p)) xs)"
    using xs by (simp add: list_all_iff)
  from place_insort [OF x this] Cons.IH [OF xs] show ?case
    by (simp add: bnd_def sort_key_def)
qed

lemma keyed_names:
  "map_exn (\<lambda>x. bnd (natural_key x) (\<lambda>k. Inr (k, x))) names = Inr keyed \<Longrightarrow>
   map snd keyed = names \<and>
   list_all (\<lambda>p. natural_key (snd p) = Inr (fst p)) keyed"
proof (induction names arbitrary: keyed)
  case Nil
  then show ?case by simp
next
  case (Cons n names)
  from Cons.prems obtain k rest where "natural_key n = Inr k"
    and "map_exn (\<lambda>x. bnd (natural_key x) (\<lambda>k. Inr (k, x))) names = Inr rest"
    and "keyed = (k, n) # rest"
    by (auto simp: bnd_def split: sum.splits)
  with Cons.IH [of rest] show ?case by simp
qed

lemma keyed_names_ok:
  "list_all (\<lambda>n. \<exists>k. natural_key n = Inr k) names \<Longrightarrow>
   \<exists>keyed. map_exn (\<lambda>x. bnd (natural_key x) (\<lambda>k. Inr (k, x))) names = Inr keyed"
  by (induction names) (auto simp: bnd_def)

lemma order_code_keyed:
  "list_all (\<lambda>p. natural_key (snd p) = Inr (fst p)) keyed \<Longrightarrow> p \<in> set keyed \<Longrightarrow>
   map enc (fst p) = order_code (snd p)"
  by (auto simp: list_all_iff order_code_def)

lemma natural_keys_compare_code:
  assumes "natural_key a = Inr ka" and "natural_key b = Inr kb"
  shows "key_lt ka kb = Inr (order_code a < order_code b)"
  using natural_keys_compare [OF assms] assms by (simp add: order_code_def)

lemma plain_pieces:
  "alt_pieces b ps \<Longrightarrow> list_all plain ps \<Longrightarrow> \<exists>k. map_exn key_part ps = Inr k"
proof (induction ps arbitrary: b)
  case Nil
  show ?case by simp
next
  case (Cons p ps)
  from Cons.prems have ps: "alt_pieces (\<not> b) ps" "list_all plain ps"
    by (cases b; simp)+
  from Cons.IH [OF ps] obtain k where k: "map_exn key_part ps = Inr k" ..
  have "\<exists>e. key_part p = Inr e"
  proof (cases b)
    case True
    with Cons.prems have "list_all (\<lambda>c. \<not> decimal_char c) p" "plain p" by simp_all
    then have "\<not> isdigit p"
      by (cases p) (auto simp: isdigit_def isdigit_char_def plain_def)
    then show ?thesis by (simp add: key_part_def)
  next
    case False
    with Cons.prems have "p \<noteq> []" "list_all decimal_char p" by simp_all
    from key_part_digits [OF this] show ?thesis by blast
  qed
  with k show ?case by (auto simp: bnd_def)
qed

lemma plain_natural_key: "plain name \<Longrightarrow> \<exists>k. natural_key name = Inr k"
proof -
  assume plain: "plain name"
  have "set (concat (re_split name)) = set name"
    by (simp only: re_split_concat)
  then have "\<forall>p \<in> set (re_split name). set p \<subseteq> set name"
    by auto
  with plain have "list_all plain (re_split name)"
    unfolding plain_def list_all_iff by blast
  from plain_pieces [OF re_split_alt this] show ?thesis
    by (simp add: natural_key_def)
qed

text \<open>
  Where the key of every name can be computed, the sort returns, and what it returns is
  the names in the order of their keys, names with equal keys in their original order.
  That holds in particular for names without superscript digits.
\<close>

lemma natural_sort_is_stable_sort:
  assumes "list_all (\<lambda>n. \<exists>k. natural_key n = Inr k) names"
  shows "\<exists>r. sorted_py natural_key names = Inr r \<and> mset r = mset names \<and>
             sorted (map order_code r) \<and>
             (\<forall>c. filter (\<lambda>n. order_code n = c) r = filter (\<lambda>n. order_code n = c) names)"
proof -
  let ?ekey = "\<lambda>p :: kelem list \<times> string. map enc (fst p)"
  from keyed_names_ok [OF assms] obtain keyed where
    keyed: "map_exn (\<lambda>x. bnd (natural_key x) (\<lambda>k. Inr (k, x))) names = Inr keyed" ..
  from keyed_names [OF keyed] have names: "map snd keyed = names"
    and keys: "list_all (\<lambda>p. natural_key (snd p) = Inr (fst p)) keyed"
    by simp_all
  from keys have alt: "list_all (\<lambda>p. alt_key True (fst p)) keyed"
    by (auto simp: list_all_iff intro: natural_key_alt)
  let ?s = "sort_key ?ekey keyed"
  have r: "sorted_py natural_key names = Inr (map snd ?s)"
    by (simp only: sorted_py_def keyed) (simp add: bnd_def sort_keyed_sort [OF alt])
  have code: "?ekey p = order_code (snd p)" if "p \<in> set keyed" for p
    using order_code_keyed [OF keys that] .
  have m: "mset (map snd ?s) = mset names"
    by (simp add: names [symmetric])
  have "map order_code (map snd ?s) = map ?ekey ?s"
    by (simp add: code)
  then have so: "sorted (map order_code (map snd ?s))"
    by (simp only: sorted_sort_key)
  have st: "filter (\<lambda>n. order_code n = c) (map snd ?s) = filter (\<lambda>n. order_code n = c) names" for c
  proof -
    have "filter (\<lambda>n. order_code n = c) (map snd ?s)
            = map snd (filter (\<lambda>p. order_code (snd p) = c) ?s)"
      by (simp add: filter_map comp_def)
    also have "filter (\<lambda>p. order_code (snd p) = c) ?s = filter (\<lambda>p. ?ekey p = c) ?s"
      by (rule filter_cong [OF refl]) (simp add: code)
    also have "\<dots> = filter (\<lambda>p. ?ekey p = c) keyed"
      by (rule sort_key_stable)
    also have "\<dots> = filter (\<lambda>p. order_code (snd p) = c) keyed"
      by (rule filter_cong [OF refl]) (simp add: code)
    also have "map snd \<dots> = filter (\<lambda>n. order_code n = c) (map snd keyed)"
      by (simp add: filter_map comp_def)
    finally show ?thesis by (simp only: names)
  qed
  from r m so st show ?thesis by blast
qed

lemma natural_sort_of_plain_names:
  assumes "list_all plain names"
  shows "\<exists>r. sorted_py natural_key names = Inr r \<and> mset r = mset names \<and>
             sorted (map order_code r) \<and>
             (\<forall>c. filter (\<lambda>n. order_code n = c) r = filter (\<lambda>n. order_code n = c) names)"
proof (rule natural_sort_is_stable_sort)
  from assms show "list_all (\<lambda>n. \<exists>k. natural_key n = Inr k) names"
    by (auto simp: list_all_iff intro: plain_natural_key)
qed

end
